theory Spec2Isabelle
  imports Complex_Main
begin

section \<open>Python values, exceptions and the world outside the module\<close>

text \<open>
  The module \<^verbatim>\<open>frontend/storm_wiki/util/file_io.py\<close> is embedded function by function.
  A Python \<^verbatim>\<open>str\<close> is a \<^typ>\<open>string\<close>: one list element stands for one character of
  the Python string (the functions below never encode or decode, so they count and compare
  characters only). The values that \<^verbatim>\<open>json.load\<close> builds are the constructors of
  \<open>pyval\<close>: a JSON object is a \<^verbatim>\<open>dict\<close> with \<^verbatim>\<open>str\<close> keys, kept as an association
  list in insertion order with distinct keys; a float is kept by its exact value (the
  code only asks whether it is zero and whether it equals another number; the infinities
  and NaN, which the decoder also accepts, are left out).
\<close>

datatype pyval =
    PNone
  | PBool bool
  | PInt int
  | PFloat rat
  | PStr string
  | PList "pyval list"
  | PDict "(string \<times> pyval) list"

text \<open>
  The exceptions the embedded code can meet. Each of them is a subclass of
  \<^verbatim>\<open>Exception\<close>; \<open>FileNotFoundError\<close> is also a subclass of \<open>IOError\<close>
  (\<^verbatim>\<open>OSError\<close>), and \<open>JSONDecodeError\<close> and \<open>UnicodeDecodeError\<close> are subclasses
  of \<^verbatim>\<open>ValueError\<close>. \<open>OtherError\<close> is any further exception a collaborator raises.
\<close>

datatype py_exn =
    TypeError
  | AttributeError
  | KeyError
  | FileNotFoundError
  | IOError
  | UnicodeDecodeError
  | JSONDecodeError
  | OtherError

text \<open>
  What \<^verbatim>\<open>open(path, "r", encoding="utf-8")\<close> followed by \<^verbatim>\<open>read()\<close> meets at a path:
  no file, a file that cannot be opened or read, bytes that are not UTF-8, or a text.
\<close>

datatype file_state = Missing | Unreadable | Undecodable | Text string

text \<open>
  The world a call runs in: the file system, the collaborator
  \<^verbatim>\<open>text_processing.parse\<close> (imported by the module, defined outside it: a parameter
  here, which may raise), and the decoder \<^verbatim>\<open>json.loads\<close> of the standard library
  (\<open>None\<close>: the text is not valid JSON and the decoder raises \<^verbatim>\<open>JSONDecodeError\<close>).
\<close>

record world =
  fs :: "string \<Rightarrow> file_state"
  parse :: "string \<Rightarrow> py_exn + string"
  json_loads :: "string \<Rightarrow> pyval option"

definition read_txt_file :: "world \<Rightarrow> string \<Rightarrow> py_exn + string" where
  "read_txt_file w file_path =
     (case fs w file_path of
        Missing \<Rightarrow> Inl FileNotFoundError
      | Unreadable \<Rightarrow> Inl IOError
      | Undecodable \<Rightarrow> Inl UnicodeDecodeError
      | Text s \<Rightarrow> Inr s)"

definition read_json_file :: "world \<Rightarrow> string \<Rightarrow> py_exn + pyval" where
  "read_json_file w file_path =
     (case read_txt_file w file_path of
        Inl e \<Rightarrow> Inl e
      | Inr s \<Rightarrow> (case json_loads w s of None \<Rightarrow> Inl JSONDecodeError | Some v \<Rightarrow> Inr v))"

section \<open>The title-line substitution\<close>

text \<open>
  \<^verbatim>\<open>re.sub(r"^#{1,3}[^\n]*\n?", "", parsed_article_content, flags=re.MULTILINE)\<close>.
  The pattern is matched piece by piece. \<^verbatim>\<open>#{1,3}\<close> is greedy and takes up to three
  \<^verbatim>\<open>#\<close>; \<^verbatim>\<open>[^\n]*\<close> then takes everything up to the next newline; \<^verbatim>\<open>\n?\<close> takes
  that newline when there is one. The two last pieces cannot fail, so the greedy choice
  is the match, and a match is never empty.
\<close>

abbreviation newline :: char where
  "newline \<equiv> CHR 0x0A"

abbreviation hash :: char where
  "hash \<equiv> CHR ''#''"

definition match_hashes :: "string \<Rightarrow> nat" where
  "match_hashes s = min 3 (length (takeWhile (\<lambda>c. c = hash) s))"

definition title_match :: "string \<Rightarrow> (string \<times> string) option" where
  "title_match s =
     (let h = match_hashes s in
      if h = 0 then None
      else
        let body = takeWhile (\<lambda>c. c \<noteq> newline) (drop h s);
            r = dropWhile (\<lambda>c. c \<noteq> newline) (drop h s);
            nl = take 1 r
        in Some (take h s @ body @ nl, drop 1 r))"

text \<open>
  \<^verbatim>\<open>^\<close> under \<^verbatim>\<open>re.MULTILINE\<close>: the position is the start of the string, or the
  character before it (of the string searched, not of the result) is a newline.
\<close>

fun at_line_start :: "char option \<Rightarrow> bool" where
  "at_line_start None = True"
| "at_line_start (Some c) = (c = newline)"

lemma title_match_shorter:
  assumes "title_match s = Some (m, rest)"
  shows "length rest < length s"
proof -
  let ?h = "match_hashes s"
  from assms have h: "?h \<noteq> 0" and rest: "rest = drop 1 (dropWhile (\<lambda>c. c \<noteq> newline) (drop ?h s))"
    by (auto simp: title_match_def Let_def split: if_splits)
  have "?h \<le> length s"
    by (simp add: match_hashes_def min.coboundedI2 length_takeWhile_le)
  with h have "length (drop ?h s) < length s" by simp
  moreover have "length rest \<le> length (drop ?h s)"
    unfolding rest using length_dropWhile_le [of "\<lambda>c. c \<noteq> newline" "drop ?h s"] by simp
  ultimately show ?thesis by simp
qed

text \<open>
  \<^verbatim>\<open>re.sub\<close> scans from the left: where the pattern matches, the match is dropped and
  the scan goes on behind it; elsewhere the character is copied and the scan moves one
  to the right. \<open>prev\<close> is the character before the position.
\<close>

function re_sub_titles :: "char option \<Rightarrow> string \<Rightarrow> string" where
  "re_sub_titles prev [] = []"
| "re_sub_titles prev (c # cs) =
     (case (if at_line_start prev then title_match (c # cs) else None) of
        Some (m, rest) \<Rightarrow> re_sub_titles (Some (last m)) rest
      | None \<Rightarrow> c # re_sub_titles (Some c) cs)"
  by pat_completeness auto
termination
  by (relation "measure (\<lambda>(prev, s). length s)")
    (auto split: if_splits dest: title_match_shorter)

text \<open>
  The same step in the words of the description: the text is cut into its lines, each
  with its newline when it has one; a line is a title line when it starts with one, two
  or three \<^verbatim>\<open>#\<close> (whatever follows them on the line); the title lines are dropped
  and the others are put together again.
\<close>

definition line_head :: "string \<Rightarrow> string" where
  "line_head s = takeWhile (\<lambda>c. c \<noteq> newline) s @ take 1 (dropWhile (\<lambda>c. c \<noteq> newline) s)"

definition line_tail :: "string \<Rightarrow> string" where
  "line_tail s = drop 1 (dropWhile (\<lambda>c. c \<noteq> newline) s)"

lemma line_tail_shorter:
  assumes "s \<noteq> []"
  shows "length (line_tail s) < length s"
proof -
  let ?d = "dropWhile (\<lambda>c. c \<noteq> newline) s"
  have le: "length ?d \<le> length s" by (rule length_dropWhile_le)
  have l: "length (line_tail s) = length ?d - 1"
    by (simp only: line_tail_def length_drop)
  from assms have "0 < length s" by simp
  with le l show ?thesis by arith
qed

function py_lines :: "string \<Rightarrow> string list" where
  "py_lines s = (if s = [] then [] else line_head s # py_lines (line_tail s))"
  by pat_completeness auto
termination
  by (relation "measure length") (auto simp: line_tail_shorter)

declare py_lines.simps [simp del]

definition starts_with_hashes :: "nat \<Rightarrow> string \<Rightarrow> bool" where
  "starts_with_hashes n l = (take n l = replicate n hash)"

definition title_line :: "string \<Rightarrow> bool" where
  "title_line l = (starts_with_hashes 1 l \<or> starts_with_hashes 2 l \<or> starts_with_hashes 3 l)"

definition remove_title_lines :: "string \<Rightarrow> string" where
  "remove_title_lines s = concat (filter (\<lambda>l. \<not> title_line l) (py_lines s))"

text \<open>
  A text has no title line at all: read from the left, no \<^verbatim>\<open>#\<close> stands at the start
  of a line. \<open>bol\<close> says whether the text begins at the start of a line.
\<close>

fun title_free :: "bool \<Rightarrow> string \<Rightarrow> bool" where
  "title_free bol [] = True"
| "title_free bol (c # cs) = (\<not> (bol \<and> c = hash) \<and> title_free (c = newline) cs)"

section \<open>Dictionaries and the operations on values\<close>

text \<open>
  A \<^verbatim>\<open>dict\<close> is an association list in insertion order with distinct keys.
  \<open>dict_get\<close> is \<^verbatim>\<open>d.get(k, default)\<close>; \<open>dict_set\<close> is \<^verbatim>\<open>d[k] = v\<close>, which keeps
  the place of a key that is there and appends a new one.
\<close>

definition dict_get :: "('k \<times> 'v) list \<Rightarrow> 'k \<Rightarrow> 'v \<Rightarrow> 'v" where
  "dict_get d k dflt = (case map_of d k of None \<Rightarrow> dflt | Some v \<Rightarrow> v)"

fun dict_set :: "('k \<times> 'v) list \<Rightarrow> 'k \<Rightarrow> 'v \<Rightarrow> ('k \<times> 'v) list" where
  "dict_set [] k v = [(k, v)]"
| "dict_set ((k', v') # d) k v =
     (if k' = k then (k', v) # d else (k', v') # dict_set d k v)"

text \<open>\<^verbatim>\<open>list(obj.keys())\<close> of a \<^verbatim>\<open>dict\<close> with \<^verbatim>\<open>str\<close> keys: its fields, in order.\<close>

fun dict_keys :: "pyval \<Rightarrow> string list" where
  "dict_keys (PDict d) = map fst d"
| "dict_keys _ = []"

text \<open>\<^verbatim>\<open>s.endswith(suf)\<close>.\<close>

definition endswith :: "string \<Rightarrow> string \<Rightarrow> bool" where
  "endswith s suf = (length suf \<le> length s \<and> drop (length s - length suf) s = suf)"

text \<open>\<^verbatim>\<open>k in s\<close> for two strings: \<open>k\<close> occurs in \<open>s\<close>.\<close>

fun is_substring :: "string \<Rightarrow> string \<Rightarrow> bool" where
  "is_substring k [] = (k = [])"
| "is_substring k (c # cs) = (take (length k) (c # cs) = k \<or> is_substring k cs)"

text \<open>The truth value of an object, as \<^verbatim>\<open>not x\<close> and \<^verbatim>\<open>if x\<close> take it.\<close>

fun py_truthy :: "pyval \<Rightarrow> bool" where
  "py_truthy PNone = False"
| "py_truthy (PBool b) = b"
| "py_truthy (PInt n) = (n \<noteq> 0)"
| "py_truthy (PFloat q) = (q \<noteq> 0)"
| "py_truthy (PStr s) = (s \<noteq> [])"
| "py_truthy (PList xs) = (xs \<noteq> [])"
| "py_truthy (PDict d) = (d \<noteq> [])"

text \<open>
  \<^verbatim>\<open>obj.get(k, default)\<close> and \<^verbatim>\<open>obj.items()\<close>: of the values of \<open>pyval\<close> only a
  \<^verbatim>\<open>dict\<close> has these methods; on any other the attribute lookup raises.
\<close>

fun py_get :: "pyval \<Rightarrow> string \<Rightarrow> pyval \<Rightarrow> py_exn + pyval" where
  "py_get (PDict d) k dflt = Inr (dict_get d k dflt)"
| "py_get _ k dflt = Inl AttributeError"

fun py_items :: "pyval \<Rightarrow> py_exn + (string \<times> pyval) list" where
  "py_items (PDict d) = Inr d"
| "py_items _ = Inl AttributeError"

text \<open>
  \<^verbatim>\<open>obj[k]\<close> for a \<^verbatim>\<open>str\<close> key \<open>k\<close>: a \<^verbatim>\<open>dict\<close> raises \<^verbatim>\<open>KeyError\<close> for
  a key it has not; a list and a string take integer indices only, and the other values
  cannot be subscripted at all (\<^verbatim>\<open>TypeError\<close> both times).
\<close>

fun py_getitem :: "pyval \<Rightarrow> string \<Rightarrow> py_exn + pyval" where
  "py_getitem (PDict d) k = (case map_of d k of None \<Rightarrow> Inl KeyError | Some v \<Rightarrow> Inr v)"
| "py_getitem _ k = Inl TypeError"

text \<open>\<^verbatim>\<open>obj[k] = v\<close> for a \<^verbatim>\<open>str\<close> key.\<close>

fun py_setitem :: "pyval \<Rightarrow> string \<Rightarrow> pyval \<Rightarrow> py_exn + pyval" where
  "py_setitem (PDict d) k v = Inr (PDict (dict_set d k v))"
| "py_setitem _ k v = Inl TypeError"

text \<open>
  \<^verbatim>\<open>k in obj\<close> for a \<^verbatim>\<open>str\<close> \<open>k\<close>: a key of a \<^verbatim>\<open>dict\<close>, an element of a list,
  a part of a string; the other values are no containers.
\<close>

fun py_contains :: "pyval \<Rightarrow> string \<Rightarrow> py_exn + bool" where
  "py_contains (PDict d) k = Inr (map_of d k \<noteq> None)"
| "py_contains (PList xs) k = Inr (PStr k \<in> set xs)"
| "py_contains (PStr s) k = Inr (is_substring k s)"
| "py_contains _ k = Inl TypeError"

text \<open>\<^verbatim>\<open>str(n)\<close> for an \<^verbatim>\<open>int\<close>: its decimal digits, with a minus sign below zero.\<close>

definition digit_char :: "nat \<Rightarrow> char" where
  "digit_char d = ''0123456789'' ! d"

fun str_nat :: "nat \<Rightarrow> string" where
  "str_nat n =
     (if n < 10 then [digit_char n] else str_nat (n div 10) @ [digit_char (n mod 10)])"

declare str_nat.simps [simp del]

definition str_int :: "int \<Rightarrow> string" where
  "str_int n = (if n < 0 then CHR ''-'' # str_nat (nat (- n)) else str_nat (nat n))"

section \<open>The citations of \<^verbatim>\<open>url_to_info.json\<close>\<close>

text \<open>
  The body of the loop over \<^verbatim>\<open>url_to_info.items()\<close>: the citation built for one
  \<open>url\<close> and its \<open>info\<close>. \<^verbatim>\<open>info.get("snippets", [])\<close> needs a \<^verbatim>\<open>dict\<close>; the
  single \<^verbatim>\<open>snippet\<close> is taken when \<^verbatim>\<open>snippets\<close> is false as a truth value and
  \<^verbatim>\<open>"snippet" in info\<close>.
\<close>

fun build_citation :: "string \<Rightarrow> pyval \<Rightarrow> py_exn + pyval" where
  "build_citation url (PDict info) =
     (let snippets = dict_get info ''snippets'' (PList []);
          snippets =
            (if \<not> py_truthy snippets
             then (case map_of info ''snippet'' of
                     Some snippet \<Rightarrow> PList [snippet]
                   | None \<Rightarrow> snippets)
             else snippets)
      in Inr (PDict
            [(''url'', PStr url),
             (''title'', dict_get info ''title'' (PStr [])),
             (''description'', dict_get info ''description'' (PStr [])),
             (''snippets'', snippets)]))"
| "build_citation url _ = Inl AttributeError"

text \<open>
  \<^verbatim>\<open>for i, (url, info) in enumerate(url_to_info.items(), start=1)\<close>, with
  \<^verbatim>\<open>citations[i] = citation\<close> at the end of each round.
\<close>

fun citations_loop ::
  "int \<Rightarrow> (string \<times> pyval) list \<Rightarrow> (int \<times> pyval) list \<Rightarrow> py_exn + (int \<times> pyval) list" where
  "citations_loop i [] citations = Inr citations"
| "citations_loop i ((url, info) # rest) citations =
     (case build_citation url info of
        Inl e \<Rightarrow> Inl e
      | Inr citation \<Rightarrow> citations_loop (i + 1) rest (dict_set citations i citation))"

text \<open>The file is opened and decoded as \<open>read_json_file\<close> does it.\<close>

definition load_citations :: "world \<Rightarrow> string \<Rightarrow> py_exn + (int \<times> pyval) list" where
  "load_citations w path =
     (case read_json_file w path of
        Inl e \<Rightarrow> Inl e
      | Inr url_info \<Rightarrow>
          (case py_get url_info ''url_to_info'' (PDict []) of
             Inl e \<Rightarrow> Inl e
           | Inr url_to_info \<Rightarrow>
               (case py_items url_to_info of
                  Inl e \<Rightarrow> Inl e
                | Inr items \<Rightarrow> citations_loop 1 items [])))"

section \<open>The conversation log\<close>

text \<open>
  \<^verbatim>\<open>isinstance(v, int)\<close> holds for an \<^verbatim>\<open>int\<close> and for a \<^verbatim>\<open>bool\<close> (a subclass of
  \<^verbatim>\<open>int\<close>). For such a value \<open>as_int\<close> gives the integer it equals and hashes as
  (the key \<^verbatim>\<open>agent_names.get\<close> looks up) and the text an f-string shows for it.
\<close>

fun as_int :: "pyval \<Rightarrow> (int \<times> string) option" where
  "as_int (PInt n) = Some (n, str_int n)"
| "as_int (PBool b) = Some (if b then (1, ''True'') else (0, ''False''))"
| "as_int _ = None"

definition agent_names :: "(int \<times> string) list" where
  "agent_names = [(0, ''User''), (1, ''AI Assistant''), (2, ''Expert'')]"

text \<open>
  The lookup in the words of the description: 0 is \<open>User\<close>, 1 is
  \<open>AI Assistant\<close>, 2 is \<open>Expert\<close>, any other integer \<open>n\<close> is \<open>Agent n\<close>.
\<close>

definition spec_agent_name :: "int \<Rightarrow> string" where
  "spec_agent_name n =
     (if n = 0 then ''User'' else if n = 1 then ''AI Assistant''
      else if n = 2 then ''Expert'' else ''Agent '' @ str_int n)"

text \<open>
  The body of \<^verbatim>\<open>for entry in conversation_log\<close>. The entry is changed in place; the
  model returns the entry as it is after the round.
\<close>

definition rename_entry :: "pyval \<Rightarrow> py_exn + pyval" where
  "rename_entry entry =
     (case py_contains entry ''agent'' of
        Inl e \<Rightarrow> Inl e
      | Inr has_agent \<Rightarrow>
          if \<not> has_agent then Inr entry
          else
            (case py_getitem entry ''agent'' of
               Inl e \<Rightarrow> Inl e
             | Inr agent \<Rightarrow>
                 (case as_int agent of
                    None \<Rightarrow> Inr entry
                  | Some (n, shown) \<Rightarrow>
                      py_setitem entry ''agent''
                        (PStr (dict_get agent_names n (''Agent '' @ shown))))))"

fun rename_entries :: "pyval list \<Rightarrow> py_exn + pyval list" where
  "rename_entries [] = Inr []"
| "rename_entries (entry # rest) =
     (case rename_entry entry of
        Inl e \<Rightarrow> Inl e
      | Inr entry' \<Rightarrow>
          (case rename_entries rest of
             Inl e \<Rightarrow> Inl e
           | Inr rest' \<Rightarrow> Inr (entry' # rest')))"

text \<open>
  The loop over what the file holds. A list yields its elements. A \<^verbatim>\<open>dict\<close> yields
  its keys and a string its characters: strings, which the body cannot change, so that
  value stays as it is unless the body raises. Nothing else can be iterated.
\<close>

fun rename_agents :: "pyval \<Rightarrow> py_exn + pyval" where
  "rename_agents (PList entries) =
     (case rename_entries entries of
        Inl e \<Rightarrow> Inl e
      | Inr entries' \<Rightarrow> Inr (PList entries'))"
| "rename_agents (PDict d) =
     (case rename_entries (map (\<lambda>(k, v). PStr k) d) of
        Inl e \<Rightarrow> Inl e
      | Inr _ \<Rightarrow> Inr (PDict d))"
| "rename_agents (PStr s) =
     (case rename_entries (map (\<lambda>c. PStr [c]) s) of
        Inl e \<Rightarrow> Inl e
      | Inr _ \<Rightarrow> Inr (PStr s))"
| "rename_agents _ = Inl TypeError"

text \<open>
  The inner \<^verbatim>\<open>try\<close>: \<^verbatim>\<open>except json.JSONDecodeError\<close> takes that exception only and
  leaves the record without the field (\<open>None\<close>); any other exception goes on outwards.
\<close>

definition load_conversation_log :: "world \<Rightarrow> string \<Rightarrow> py_exn + pyval option" where
  "load_conversation_log w path =
     (case (case read_json_file w path of
              Inl e \<Rightarrow> Inl e
            | Inr conversation_log \<Rightarrow> rename_agents conversation_log) of
        Inl e \<Rightarrow> if e = JSONDecodeError then Inr None else Inl e
      | Inr conversation_log \<Rightarrow> Inr (Some conversation_log))"

section \<open>\<^verbatim>\<open>assemble_article_data\<close>\<close>

text \<open>
  The record the function returns is a \<^verbatim>\<open>dict\<close> with the keys \<^verbatim>\<open>article\<close>,
  \<^verbatim>\<open>short_text\<close> and \<^verbatim>\<open>citation\<close> and, when they were added, \<^verbatim>\<open>citations\<close> and
  \<^verbatim>\<open>conversation_log\<close>: a field that is \<open>None\<close> here is a key the \<^verbatim>\<open>dict\<close> has not.
  \<^verbatim>\<open>citations\<close> is a \<^verbatim>\<open>dict\<close> with \<^verbatim>\<open>int\<close> keys.
\<close>

record article_data =
  article :: string
  short_text :: string
  citation :: pyval
  citations :: "(int \<times> pyval) list option"
  conversation_log :: "pyval option"

text \<open>
  The argument: a \<^verbatim>\<open>dict\<close> from file names to paths, as the annotation
  \<^verbatim>\<open>Dict[str, str]\<close> has it, or an object that is no \<^verbatim>\<open>dict\<close>.
\<close>

datatype py_arg =
    ArgDict "(string \<times> string) list"
  | ArgNone
  | ArgBool bool
  | ArgInt int
  | ArgFloat rat
  | ArgStr string
  | ArgList "pyval list"

text \<open>\<^verbatim>\<open>if "url_to_info.json" in article_file_path_dict: ...\<close>\<close>

definition add_citations ::
  "world \<Rightarrow> (string \<times> string) list \<Rightarrow> article_data \<Rightarrow> py_exn + article_data" where
  "add_citations w article_file_path_dict article_data =
     (case map_of article_file_path_dict ''url_to_info.json'' of
        None \<Rightarrow> Inr article_data
      | Some path \<Rightarrow>
          (case load_citations w path of
             Inl e \<Rightarrow> Inl e
           | Inr cs \<Rightarrow> Inr (article_data\<lparr>citations := Some cs\<rparr>)))"

text \<open>\<^verbatim>\<open>if "conversation_log.json" in article_file_path_dict: ...\<close>\<close>

definition add_conversation_log ::
  "world \<Rightarrow> (string \<times> string) list \<Rightarrow> article_data \<Rightarrow> py_exn + article_data" where
  "add_conversation_log w article_file_path_dict article_data =
     (case map_of article_file_path_dict ''conversation_log.json'' of
        None \<Rightarrow> Inr article_data
      | Some path \<Rightarrow>
          (case load_conversation_log w path of
             Inl e \<Rightarrow> Inl e
           | Inr None \<Rightarrow> Inr article_data
           | Inr (Some lg) \<Rightarrow> Inr (article_data\<lparr>conversation_log := Some lg\<rparr>)))"

text \<open>
  The record as it is first built: \<^verbatim>\<open>no_title_content\<close>, \<^verbatim>\<open>short_text\<close> and the
  \<^verbatim>\<open>dict\<close> display of \<^verbatim>\<open>article_data\<close>.
\<close>

definition initial_article_data :: "string \<Rightarrow> article_data" where
  "initial_article_data parsed_article_content =
     (let no_title_content = re_sub_titles None parsed_article_content;
          short_text = take 100 no_title_content
      in \<lparr>article = parsed_article_content,
          short_text = short_text,
          citation = PNone,
          citations = None,
          conversation_log = None\<rparr>)"

text \<open>The body of the outer \<^verbatim>\<open>try\<close>, up to \<^verbatim>\<open>return article_data\<close>.\<close>

definition assemble_body ::
  "world \<Rightarrow> (string \<times> string) list \<Rightarrow> string \<Rightarrow> py_exn + article_data" where
  "assemble_body w article_file_path_dict article_file =
     (case map_of article_file_path_dict article_file of
        None \<Rightarrow> Inl KeyError
      | Some path \<Rightarrow>
          (case read_txt_file w path of
             Inl e \<Rightarrow> Inl e
           | Inr article_content \<Rightarrow>
               (case parse w article_content of
                  Inl e \<Rightarrow> Inl e
                | Inr parsed_article_content \<Rightarrow>
                    (case add_citations w article_file_path_dict
                            (initial_article_data parsed_article_content) of
                       Inl e \<Rightarrow> Inl e
                     | Inr article_data \<Rightarrow>
                         add_conversation_log w article_file_path_dict article_data))))"

text \<open>
  The function. \<open>Inl\<close> is an exception that reaches the caller, \<open>Inr None\<close> is
  \<^verbatim>\<open>return None\<close>. The three handlers of the outer \<^verbatim>\<open>try\<close>
  (\<^verbatim>\<open>FileNotFoundError\<close>, \<^verbatim>\<open>IOError\<close>, \<^verbatim>\<open>Exception\<close>) differ in the line they
  print only; each of them goes on to \<^verbatim>\<open>return None\<close>, and every exception of
  \<open>py_exn\<close> is taken by one of them. What the function prints is not modelled.
\<close>

definition assemble_article_data :: "world \<Rightarrow> py_arg \<Rightarrow> py_exn + article_data option" where
  "assemble_article_data w arg =
     (case arg of
        ArgDict article_file_path_dict \<Rightarrow>
          (case find (\<lambda>f. endswith f ''.md'') (map fst article_file_path_dict) of
             None \<Rightarrow> Inr None
           | Some article_file \<Rightarrow>
               if article_file = [] then Inr None
               else
                 (case assemble_body w article_file_path_dict article_file of
                    Inr article_data \<Rightarrow> Inr (Some article_data)
                  | Inl e \<Rightarrow> Inr None))
      | _ \<Rightarrow> Inl TypeError)"

section \<open>\<^verbatim>\<open>_construct_citation_dict_from_search_result\<close>\<close>

text \<open>
  The keys of \<^verbatim>\<open>citation_dict\<close> are the indices the argument holds, whatever they are.
  A list and a \<^verbatim>\<open>dict\<close> cannot be hashed; among the others two keys are the same key
  when they are equal as Python compares them: numbers (\<^verbatim>\<open>bool\<close>, \<^verbatim>\<open>int\<close>,
  \<^verbatim>\<open>float\<close>) by their value, strings and \<^verbatim>\<open>None\<close> with their like only.
\<close>

fun py_hashable :: "pyval \<Rightarrow> bool" where
  "py_hashable (PList xs) = False"
| "py_hashable (PDict d) = False"
| "py_hashable _ = True"

fun key_num :: "pyval \<Rightarrow> rat option" where
  "key_num (PBool b) = Some (if b then 1 else 0)"
| "key_num (PInt n) = Some (of_int n)"
| "key_num (PFloat q) = Some q"
| "key_num _ = None"

definition py_key_eq :: "pyval \<Rightarrow> pyval \<Rightarrow> bool" where
  "py_key_eq a b = (case key_num a of Some x \<Rightarrow> key_num b = Some x | None \<Rightarrow> a = b)"

fun pydict_set :: "(pyval \<times> pyval) list \<Rightarrow> pyval \<Rightarrow> pyval \<Rightarrow> (pyval \<times> pyval) list" where
  "pydict_set [] k v = [(k, v)]"
| "pydict_set ((k', v') # d) k v =
     (if py_key_eq k' k then (k', v) # d else (k', v') # pydict_set d k v)"

text \<open>\<^verbatim>\<open>citation_dict.get(k)\<close>: the entry at a key, if there is one.\<close>

fun pydict_get :: "(pyval \<times> pyval) list \<Rightarrow> pyval \<Rightarrow> pyval option" where
  "pydict_get [] k = None"
| "pydict_get ((k', v) # d) k = (if py_key_eq k' k then Some v else pydict_get d k)"

text \<open>
  The \<^verbatim>\<open>dict\<close> display of the loop body. Its two lookups of
  \<^verbatim>\<open>search_results["url_to_info"][url]\<close> give the same value, read here once.
\<close>

definition search_citation :: "pyval \<Rightarrow> string \<Rightarrow> py_exn + pyval" where
  "search_citation search_results url =
     (case py_getitem search_results ''url_to_info'' of
        Inl e \<Rightarrow> Inl e
      | Inr url_to_info \<Rightarrow>
          (case py_getitem url_to_info url of
             Inl e \<Rightarrow> Inl e
           | Inr info \<Rightarrow>
               (case py_getitem info ''title'' of
                  Inl e \<Rightarrow> Inl e
                | Inr title \<Rightarrow>
                    (case py_getitem info ''snippet'' of
                       Inl e \<Rightarrow> Inl e
                     | Inr snippet \<Rightarrow>
                         Inr (PDict
                           [(''url'', PStr url),
                            (''title'', title),
                            (''snippets'', PList [snippet])])))))"

fun search_loop ::
  "pyval \<Rightarrow> (string \<times> pyval) list \<Rightarrow> (pyval \<times> pyval) list \<Rightarrow> py_exn + (pyval \<times> pyval) list" where
  "search_loop search_results [] citation_dict = Inr citation_dict"
| "search_loop search_results ((url, index) # rest) citation_dict =
     (case search_citation search_results url of
        Inl e \<Rightarrow> Inl e
      | Inr c \<Rightarrow>
          if py_hashable index
          then search_loop search_results rest (pydict_set citation_dict index c)
          else Inl TypeError)"

definition construct_citation_dict_from_search_result ::
  "pyval \<Rightarrow> py_exn + (pyval \<times> pyval) list option" where
  "construct_citation_dict_from_search_result search_results =
     (if search_results = PNone then Inr None
      else
        (case py_getitem search_results ''url_to_unified_index'' of
           Inl e \<Rightarrow> Inl e
         | Inr url_to_unified_index \<Rightarrow>
             (case py_items url_to_unified_index of
                Inl e \<Rightarrow> Inl e
              | Inr pairs \<Rightarrow>
                  (case search_loop search_results pairs [] of
                     Inl e \<Rightarrow> Inl e
                   | Inr citation_dict \<Rightarrow> Inr (Some citation_dict)))))"

section \<open>An example world\<close>

text \<open>
  One topic directory, used to run the definitions: an article with a title line and a
  heading of four \<^verbatim>\<open>#\<close>, a citation index with two urls, a conversation log with
  three turns, a file that is not JSON, a file that cannot be read. \<open>parse\<close> leaves
  the text as it is; \<open>json_loads\<close> decodes the two JSON texts of the directory and
  takes no other text for JSON.
\<close>

definition example_article :: string where
  "example_article =
     ''# Title'' @ [newline] @ ''Intro text.'' @ [newline] @
     ''#### Deep heading'' @ [newline] @ ''Body''"

definition example_url_info :: pyval where
  "example_url_info =
     PDict [(''url_to_info'', PDict
       [(''http://a'', PDict [(''title'', PStr ''A''), (''snippets'', PList []), (''snippet'', PStr ''x'')]),
        (''http://b'', PDict [(''description'', PStr ''about b''), (''snippets'', PList [PStr ''s1'', PStr ''s2''])])])]"

definition example_log :: pyval where
  "example_log =
     PList [PDict [(''agent'', PInt 0), (''text'', PStr ''hi'')],
            PDict [(''agent'', PInt 5), (''text'', PStr ''yo'')],
            PDict [(''text'', PStr ''no agent'')]]"

definition example_url_info_text :: string where
  "example_url_info_text =
     ''{\"url_to_info\": {\"http://a\": {\"title\": \"A\", \"snippets\": [], \"snippet\": \"x\"}, '' @
     ''\"http://b\": {\"description\": \"about b\", \"snippets\": [\"s1\", \"s2\"]}}}''"

definition example_log_text :: string where
  "example_log_text =
     ''[{\"agent\": 0, \"text\": \"hi\"}, {\"agent\": 5, \"text\": \"yo\"}, '' @
     ''{\"text\": \"no agent\"}]''"

definition example_world :: world where
  "example_world =
     \<lparr>fs = (\<lambda>p.
         if p = ''/t/storm_gen_article.md'' then Text example_article
         else if p = ''/t/url_to_info.json'' then Text example_url_info_text
         else if p = ''/t/conversation_log.json'' then Text example_log_text
         else if p = ''/t/broken.json'' then Text ''{''
         else if p = ''/t/locked.md'' then Unreadable
         else Missing),
      parse = Inr,
      json_loads = map_of
        [(example_url_info_text, example_url_info),
         (example_log_text, example_log)]\<rparr>"

text \<open>A search result with two urls; the second info has a description.\<close>

definition example_search_results :: pyval where
  "example_search_results =
     PDict [(''url_to_unified_index'', PDict [(''http://a'', PInt 1), (''http://b'', PInt 2)]),
            (''url_to_info'', PDict
               [(''http://a'', PDict [(''title'', PStr ''A''), (''snippet'', PStr ''x'')]),
                (''http://b'', PDict [(''title'', PStr ''B''), (''snippet'', PStr ''y''),
                                      (''description'', PStr ''about b'')])])]"

section \<open>Lines and the title-line substitution\<close>

lemma line_head_tail: "line_head s @ line_tail s = s"
  by (simp add: line_head_def line_tail_def)

lemma line_head_Cons:
  "line_head (c # cs) = (if c = newline then [c] else c # line_head cs)"
  by (simp add: line_head_def)

lemma line_tail_Cons:
  "line_tail (c # cs) = (if c = newline then cs else line_tail cs)"
  by (simp add: line_tail_def)

lemma line_head_Nil [simp]: "line_head [] = []" by (simp add: line_head_def)
lemma line_tail_Nil [simp]: "line_tail [] = []" by (simp add: line_tail_def)

lemma title_line_iff: "title_line l \<longleftrightarrow> (\<exists>t. l = hash # t)"
  by (cases l) (auto simp: title_line_def starts_with_hashes_def eval_nat_numeral)

lemma title_match_Nil [simp]: "title_match [] = None"
  by (simp add: title_match_def match_hashes_def)

lemma title_match_other: "c \<noteq> hash \<Longrightarrow> title_match (c # cs) = None"
  by (simp add: title_match_def match_hashes_def)

lemma split_while:
  assumes "\<forall>c \<in> set (take h s). P c"
  shows "takeWhile P s = take h s @ takeWhile P (drop h s)"
    and "dropWhile P s = dropWhile P (drop h s)"
proof -
  have s: "s = take h s @ drop h s" by simp
  show "takeWhile P s = take h s @ takeWhile P (drop h s)"
    using assms by (subst s, subst takeWhile_append2) auto
  show "dropWhile P s = dropWhile P (drop h s)"
    using assms by (subst s, subst dropWhile_append2) auto
qed

lemma take_match_hashes: "c \<in> set (take (match_hashes s) s) \<Longrightarrow> c = hash"
proof -
  assume c: "c \<in> set (take (match_hashes s) s)"
  let ?L = "length (takeWhile (\<lambda>c. c = hash) s)"
  have "take (match_hashes s) s = take (match_hashes s) (take ?L s)"
    by (simp add: match_hashes_def min.absorb1)
  also have "take ?L s = takeWhile (\<lambda>c. c = hash) s"
    by (rule takeWhile_eq_take [symmetric])
  finally have "c \<in> set (takeWhile (\<lambda>c. c = hash) s)"
    using c by (auto dest: in_set_takeD)
  then show "c = hash" by (auto dest: set_takeWhileD)
qed

lemma title_match_hash:
  "title_match (hash # cs) = Some (line_head (hash # cs), line_tail (hash # cs))"
proof -
  define s where "s = hash # cs"
  define h where "h = match_hashes s"
  have h: "h \<noteq> 0" by (simp add: h_def s_def match_hashes_def)
  have "\<forall>c \<in> set (take h s). c \<noteq> newline"
    using take_match_hashes [of _ s] by (auto simp: h_def)
  from split_while [OF this]
  have "line_head s = take h s @ takeWhile (\<lambda>c. c \<noteq> newline) (drop h s)
          @ take 1 (dropWhile (\<lambda>c. c \<noteq> newline) (drop h s))"
    and "line_tail s = drop 1 (dropWhile (\<lambda>c. c \<noteq> newline) (drop h s))"
    by (simp_all only: line_head_def line_tail_def append_assoc)
  moreover have "title_match s = Some (take h s @ takeWhile (\<lambda>c. c \<noteq> newline) (drop h s)
          @ take 1 (dropWhile (\<lambda>c. c \<noteq> newline) (drop h s)),
       drop 1 (dropWhile (\<lambda>c. c \<noteq> newline) (drop h s)))"
    using h unfolding title_match_def Let_def h_def by simp
  ultimately show ?thesis unfolding s_def by simp
qed

lemma re_sub_not_start:
  "\<not> at_line_start prev \<Longrightarrow>
     re_sub_titles prev s = line_head s @ re_sub_titles (Some newline) (line_tail s)"
proof (induction s arbitrary: prev)
  case Nil
  then show ?case by simp
next
  case (Cons c cs)
  show ?case
  proof (cases "c = newline")
    case True
    with Cons.prems show ?thesis by (simp add: line_head_Cons line_tail_Cons)
  next
    case False
    then have "\<not> at_line_start (Some c)" by simp
    from Cons.IH [OF this] Cons.prems False show ?thesis
      by (simp add: line_head_Cons line_tail_Cons)
  qed
qed

lemma re_sub_start_other:
  assumes "c \<noteq> hash"
  shows "re_sub_titles prev (c # cs) =
     line_head (c # cs) @ re_sub_titles (Some newline) (line_tail (c # cs))"
proof -
  have "re_sub_titles prev (c # cs) = c # re_sub_titles (Some c) cs"
    using assms by (simp add: title_match_other)
  also have "\<dots> = line_head (c # cs) @ re_sub_titles (Some newline) (line_tail (c # cs))"
  proof (cases "c = newline")
    case True
    then show ?thesis by (simp add: line_head_Cons line_tail_Cons)
  next
    case False
    then have "\<not> at_line_start (Some c)" by simp
    from re_sub_not_start [OF this, of cs] False show ?thesis
      by (simp add: line_head_Cons line_tail_Cons)
  qed
  finally show ?thesis .
qed

lemma last_line_head:
  assumes "line_tail s \<noteq> []"
  shows "last (line_head s) = newline"
proof -
  let ?d = "dropWhile (\<lambda>c. c \<noteq> newline) s"
  have ne: "?d \<noteq> []"
  proof
    assume "?d = []"
    then have "line_tail s = []" by (simp only: line_tail_def drop_Nil)
    with assms show False by simp
  qed
  from hd_dropWhile [OF ne] have "hd ?d = newline" by simp
  with ne have "take 1 ?d = [newline]" by (cases ?d) (simp_all del: dropWhile_eq_Nil_conv)
  then show ?thesis by (simp add: line_head_def)
qed

lemma re_sub_start_hash:
  assumes "at_line_start prev"
  shows "re_sub_titles prev (hash # cs) = re_sub_titles (Some newline) (line_tail (hash # cs))"
proof (cases "line_tail (hash # cs) = []")
  case True
  with assms show ?thesis by (simp add: title_match_hash del: re_sub_titles.simps(2) add: re_sub_titles.simps(2) [of prev hash cs])
next
  case False
  from last_line_head [OF this] assms show ?thesis
    by (simp add: title_match_hash)
qed

lemma py_lines_Nil [simp]: "py_lines [] = []"
  by (simp add: py_lines.simps)

lemma py_lines_nonempty: "s \<noteq> [] \<Longrightarrow> py_lines s = line_head s # py_lines (line_tail s)"
  by (subst py_lines.simps) simp

lemma line_head_hd: "s \<noteq> [] \<Longrightarrow> hd (line_head s) = hd s \<and> line_head s \<noteq> []"
  by (cases s) (simp_all add: line_head_Cons)

lemma re_sub_lines:
  "at_line_start prev \<Longrightarrow>
     re_sub_titles prev s = concat (filter (\<lambda>l. \<not> title_line l) (py_lines s))"
proof (induction s arbitrary: prev rule: py_lines.induct)
  case (1 s)
  show ?case
  proof (cases s)
    case Nil
    then show ?thesis by simp
  next
    case (Cons c cs)
    then have ne: "s \<noteq> []" by simp
    have start: "at_line_start (Some newline)" by simp
    note IH = "1.IH" [OF ne start]
    show ?thesis
    proof (cases "c = hash")
      case True
      then have "title_line (line_head s)"
        using Cons by (simp add: title_line_iff line_head_Cons)
      with re_sub_start_hash [OF "1.prems", of cs] True Cons IH show ?thesis
        by (simp add: py_lines_nonempty)
    next
      case False
      then have "\<not> title_line (line_head s)"
        using Cons by (simp add: title_line_iff line_head_Cons)
      with re_sub_start_other [OF False, of prev cs] Cons IH show ?thesis
        by (simp add: py_lines_nonempty)
    qed
  qed
qed

lemma re_sub_titles_spec: "re_sub_titles None s = remove_title_lines s"
  by (simp add: re_sub_lines remove_title_lines_def)


lemma title_free_take: "title_free b t \<Longrightarrow> title_free b (take n t)"
proof (induction t arbitrary: b n)
  case Nil
  then show ?case by simp
next
  case (Cons c cs)
  then show ?case by (cases n) auto
qed

lemma title_free_mid: "title_free False t = title_free True (line_tail t)"
proof (induction t)
  case Nil
  then show ?case by simp
next
  case (Cons c cs)
  then show ?case by (simp add: line_tail_Cons)
qed

lemma title_free_start:
  "t \<noteq> [] \<Longrightarrow> title_free True t = (hd t \<noteq> hash \<and> title_free True (line_tail t))"
  by (cases t) (auto simp: line_tail_Cons title_free_mid)

lemma title_free_lines:
  "title_free True t \<longleftrightarrow> (\<forall>l \<in> set (py_lines t). \<not> title_line l)"
proof (induction t rule: py_lines.induct)
  case (1 s)
  show ?case
  proof (cases "s = []")
    case True
    then show ?thesis by simp
  next
    case False
    then obtain c cs where s: "s = c # cs" by (cases s) auto
    have "title_line (line_head s) \<longleftrightarrow> hd s = hash"
      by (simp add: s title_line_iff line_head_Cons)
    with "1.IH" [OF False] False show ?thesis
      by (simp add: py_lines_nonempty title_free_start)
  qed
qed

lemma title_free_re_sub:
  "title_free (at_line_start prev) (re_sub_titles prev s)"
proof (induction prev s rule: re_sub_titles.induct)
  case (1 prev)
  then show ?case by simp
next
  case (2 prev c cs)
  let ?s = "c # cs"
  show ?case
  proof (cases "at_line_start prev \<and> c = hash")
    case True
    then have m: "(if at_line_start prev then title_match ?s else None)
        = Some (line_head ?s, line_tail ?s)"
      by (simp add: title_match_hash)
    have out: "re_sub_titles prev ?s = re_sub_titles (Some (last (line_head ?s))) (line_tail ?s)"
      by (simp only: re_sub_titles.simps m option.case prod.case)
    show ?thesis
    proof (cases "line_tail ?s = []")
      case True
      then show ?thesis unfolding out by simp
    next
      case False
      from last_line_head [OF this] have "at_line_start (Some (last (line_head ?s)))"
        by simp
      with "2.IH"(2) [OF m refl] \<open>at_line_start prev \<and> c = hash\<close> show ?thesis
        unfolding out by simp
    qed
  next
    case False
    then have m: "(if at_line_start prev then title_match ?s else None) = None"
      by (auto simp: title_match_other)
    have out: "re_sub_titles prev ?s = c # re_sub_titles (Some c) cs"
      by (simp only: re_sub_titles.simps m option.case)
    from "2.IH"(1) [OF m] have "title_free (c = newline) (re_sub_titles (Some c) cs)" by simp
    with False show ?thesis unfolding out by auto
  qed
qed

lemma short_text_lines:
  "\<forall>l \<in> set (py_lines (take n (re_sub_titles None s))). \<not> title_line l"
proof -
  have "title_free True (re_sub_titles None s)"
    using title_free_re_sub [of None s] by simp
  then have "title_free True (take n (re_sub_titles None s))"
    by (rule title_free_take)
  then show ?thesis by (simp only: title_free_lines)
qed

section \<open>The steps of the assembly\<close>

lemma endswith_md_nonempty: "endswith f ''.md'' \<Longrightarrow> f \<noteq> []"
  by (auto simp: endswith_def)

lemma find_md:
  assumes "find (\<lambda>f. endswith f ''.md'') ks = Some k"
  shows "k \<noteq> []" and "k \<in> set ks"
proof -
  from assms have "endswith k ''.md''" and "k \<in> set ks"
    by (auto simp: find_Some_iff)
  then show "k \<noteq> []" and "k \<in> set ks"
    by (auto dest: endswith_md_nonempty)
qed

lemma assemble_dict:
  assumes "find (\<lambda>f. endswith f ''.md'') (map fst d) = Some k"
  shows "assemble_article_data w (ArgDict d) =
     (case assemble_body w d k of Inr a \<Rightarrow> Inr (Some a) | Inl e \<Rightarrow> Inr None)"
  using assms find_md(1) [OF assms] by (simp add: assemble_article_data_def)

lemma assemble_body_parsed:
  assumes "map_of d k = Some p" and "fs w p = Text raw" and "parse w raw = Inr parsed"
  shows "assemble_body w d k =
     (case add_citations w d (initial_article_data parsed) of
        Inl e \<Rightarrow> Inl e
      | Inr a \<Rightarrow> add_conversation_log w d a)"
  using assms by (simp add: assemble_body_def read_txt_file_def)

lemma add_citations_fields:
  assumes "add_citations w d a = Inr a'"
  shows "article a' = article a" and "short_text a' = short_text a"
    and "citation a' = citation a" and "conversation_log a' = conversation_log a"
  using assms by (auto simp: add_citations_def split: option.splits sum.splits)

lemma add_conversation_log_fields:
  assumes "add_conversation_log w d a = Inr a'"
  shows "article a' = article a" and "short_text a' = short_text a"
    and "citation a' = citation a" and "citations a' = citations a"
  using assms by (auto simp: add_conversation_log_def split: option.splits sum.splits)

lemma assemble_record:
  assumes "find (\<lambda>f. endswith f ''.md'') (map fst d) = Some k"
    and "map_of d k = Some p" and "fs w p = Text raw" and "parse w raw = Inr parsed"
    and "assemble_article_data w (ArgDict d) = Inr (Some r)"
  shows "\<exists>a. add_citations w d (initial_article_data parsed) = Inr a
           \<and> add_conversation_log w d a = Inr r"
  using assms(5)
  by (auto simp: assemble_dict [OF assms(1)] assemble_body_parsed [OF assms(2-4)]
      split: sum.splits)

lemma assemble_returns:
  assumes "find (\<lambda>f. endswith f ''.md'') (map fst d) = Some k"
    and "map_of d k = Some p" and "fs w p = Text raw" and "parse w raw = Inr parsed"
    and "add_citations w d (initial_article_data parsed) = Inr a"
    and "add_conversation_log w d a = Inr r"
  shows "assemble_article_data w (ArgDict d) = Inr (Some r)"
  using assms(5,6)
  by (simp add: assemble_dict [OF assms(1)] assemble_body_parsed [OF assms(2-4)])

lemma assemble_record_fields:
  assumes "find (\<lambda>f. endswith f ''.md'') (map fst d) = Some k"
    and "map_of d k = Some p" and "fs w p = Text raw" and "parse w raw = Inr parsed"
    and "assemble_article_data w (ArgDict d) = Inr (Some r)"
  shows "article r = parsed"
    and "short_text r = take 100 (re_sub_titles None parsed)"
    and "citation r = PNone"
proof -
  from assemble_record [OF assms] obtain a where
    a: "add_citations w d (initial_article_data parsed) = Inr a"
    and r: "add_conversation_log w d a = Inr r" by blast
  show "article r = parsed"
    using add_citations_fields(1) [OF a] add_conversation_log_fields(1) [OF r]
    by (simp add: initial_article_data_def)
  show "short_text r = take 100 (re_sub_titles None parsed)"
    using add_citations_fields(2) [OF a] add_conversation_log_fields(2) [OF r]
    by (simp add: initial_article_data_def)
  show "citation r = PNone"
    using add_citations_fields(3) [OF a] add_conversation_log_fields(3) [OF r]
    by (simp add: initial_article_data_def)
qed

lemma assemble_plain:
  assumes "find (\<lambda>f. endswith f ''.md'') (map fst d) = Some k"
    and "map_of d k = Some p" and "fs w p = Text raw" and "parse w raw = Inr parsed"
    and "map_of d ''url_to_info.json'' = None" and "map_of d ''conversation_log.json'' = None"
  shows "assemble_article_data w (ArgDict d) = Inr (Some (initial_article_data parsed))"
  using assms(5,6)
  by (intro assemble_returns [OF assms(1-4)]) (simp_all add: add_citations_def add_conversation_log_def)

lemma starts_with_hashes_title:
  "(\<exists>n. 0 < n \<and> starts_with_hashes n l) \<longleftrightarrow> title_line l"
proof
  assume "\<exists>n. 0 < n \<and> starts_with_hashes n l"
  then obtain n where n: "0 < n" and t: "take n l = replicate n hash"
    by (auto simp: starts_with_hashes_def)
  from n obtain m where m: "n = Suc m" by (cases n) auto
  from t m obtain c cs where l: "l = c # cs" by (cases l) auto
  with t m have "c = hash" by simp
  with l show "title_line l" by (simp add: title_line_iff)
next
  assume "title_line l"
  then have "starts_with_hashes 1 l"
    by (auto simp: title_line_iff starts_with_hashes_def)
  then show "\<exists>n. 0 < n \<and> starts_with_hashes n l" by (intro exI [of _ 1]) simp
qed

lemma title_match_hashes:
  assumes "0 < n"
  shows "title_match (replicate n hash @ t)
     = Some (line_head (replicate n hash @ t), line_tail (replicate n hash @ t))"
proof -
  from assms obtain m where "n = Suc m" by (cases n) auto
  then have "replicate n hash @ t = hash # (replicate m hash @ t)" by simp
  then show ?thesis by (simp only: title_match_hash)
qed

lemma assemble_dict_never_raises: "\<exists>r. assemble_article_data w (ArgDict d) = Inr r"
  by (simp add: assemble_article_data_def split: option.splits sum.splits)

lemma example_initial:
  "initial_article_data example_article
     = \<lparr>article = example_article,
        short_text = ''Intro text.'' @ [newline] @ ''Body'',
        citation = PNone, citations = None, conversation_log = None\<rparr>"
  by (simp add: initial_article_data_def example_article_def title_match_def match_hashes_def)

lemma dict_set_fresh: "k \<notin> fst ` set d \<Longrightarrow> dict_set d k v = d @ [(k, v)]"
  by (induction d) auto

lemma citations_loop_char:
  assumes "\<forall>k \<in> fst ` set acc. k < i"
  shows "citations_loop i items acc = Inr res \<longleftrightarrow>
     (\<exists>cs. map (\<lambda>(url, info). build_citation url info) items = map Inr cs
          \<and> res = acc @ zip [i..i + int (length items) - 1] cs)"
  using assms
proof (induction items arbitrary: i acc)
  case Nil
  then show ?case by auto
next
  case (Cons item items)
  obtain url info where item: "item = (url, info)" by (cases item)
  show ?case
  proof (cases "build_citation url info")
    case (Inl e)
    then show ?thesis by (auto simp: item)
  next
    case (Inr c)
    from Cons.prems have fresh: "i \<notin> fst ` set acc" by auto
    have keys: "\<forall>k \<in> fst ` set (acc @ [(i, c)]). k < i + 1"
      using Cons.prems by auto
    have up: "[i..i + int (length (item # items)) - 1] = i # [i + 1..i + 1 + int (length items) - 1]"
      by (subst upto_rec1) (simp_all add: add.commute add.left_commute)
    have "citations_loop i (item # items) acc = citations_loop (i + 1) items (acc @ [(i, c)])"
      by (simp add: item Inr dict_set_fresh [OF fresh])
    also have "\<dots> = Inr res \<longleftrightarrow>
      (\<exists>cs. map (\<lambda>(url, info). build_citation url info) items = map Inr cs
          \<and> res = (acc @ [(i, c)]) @ zip [i + 1..i + 1 + int (length items) - 1] cs)"
      by (rule Cons.IH [OF keys])
    also have "\<dots> \<longleftrightarrow>
      (\<exists>cs. map (\<lambda>(url, info). build_citation url info) (item # items) = map Inr cs
          \<and> res = acc @ zip [i..i + int (length (item # items)) - 1] cs)"
    proof
      assume "\<exists>cs. map (\<lambda>(url, info). build_citation url info) items = map Inr cs
          \<and> res = (acc @ [(i, c)]) @ zip [i + 1..i + 1 + int (length items) - 1] cs"
      then obtain cs where cs: "map (\<lambda>(url, info). build_citation url info) items = map Inr cs"
        and res: "res = (acc @ [(i, c)]) @ zip [i + 1..i + 1 + int (length items) - 1] cs"
        by blast
      have "map (\<lambda>(url, info). build_citation url info) (item # items) = map Inr (c # cs)"
        using cs by (simp add: item Inr)
      moreover have "res = acc @ zip [i..i + int (length (item # items)) - 1] (c # cs)"
        unfolding up res by simp
      ultimately show "\<exists>cs. map (\<lambda>(url, info). build_citation url info) (item # items) = map Inr cs
          \<and> res = acc @ zip [i..i + int (length (item # items)) - 1] cs"
        by blast
    next
      assume "\<exists>cs. map (\<lambda>(url, info). build_citation url info) (item # items) = map Inr cs
          \<and> res = acc @ zip [i..i + int (length (item # items)) - 1] cs"
      then obtain cs0 where cs0: "map (\<lambda>(url, info). build_citation url info) (item # items) = map Inr cs0"
        and res: "res = acc @ zip [i..i + int (length (item # items)) - 1] cs0"
        by blast
      from cs0 obtain c' cs where c0: "cs0 = c' # cs" by (cases cs0) auto
      with cs0 have c': "c' = c" and cs: "map (\<lambda>(url, info). build_citation url info) items = map Inr cs"
        by (simp_all add: item Inr)
      have "res = (acc @ [(i, c)]) @ zip [i + 1..i + 1 + int (length items) - 1] cs"
        unfolding res up c0 c' by simp
      with cs show "\<exists>cs. map (\<lambda>(url, info). build_citation url info) items = map Inr cs
          \<and> res = (acc @ [(i, c)]) @ zip [i + 1..i + 1 + int (length items) - 1] cs"
        by blast
    qed
    finally show ?thesis .
  qed
qed

lemma citations_loop_from_1:
  "citations_loop 1 items [] = Inr res \<longleftrightarrow>
     (\<exists>cs. map (\<lambda>(url, info). build_citation url info) items = map Inr cs
          \<and> res = zip [1..int (length items)] cs)"
  using citations_loop_char [of "[]" 1 items res] by simp

lemma builds_of_dicts:
  assumes "\<forall>(url, info) \<in> set items. \<exists>f. info = PDict f"
  shows "\<exists>cs. map (\<lambda>(url, info). build_citation url info) items = map Inr cs"
  using assms
proof (induction items)
  case Nil
  then show ?case by simp
next
  case (Cons item items)
  then obtain cs where cs: "map (\<lambda>(url, info). build_citation url info) items = map Inr cs"
    by auto
  from Cons.prems obtain url f where "item = (url, PDict f)" by (cases item) auto
  then obtain c where "(\<lambda>(url, info). build_citation url info) item = Inr c"
    by (simp add: Let_def)
  with cs have "map (\<lambda>(url, info). build_citation url info) (item # items) = map Inr (c # cs)"
    by simp
  then show ?case by blast
qed

lemma load_citations_char:
  assumes "fs w q = Text j" and "json_loads w j = Some (PDict url_info)"
    and "dict_get url_info ''url_to_info'' (PDict []) = PDict items"
  shows "load_citations w q = Inr res \<longleftrightarrow>
     (\<exists>cs. map (\<lambda>(url, info). build_citation url info) items = map Inr cs
          \<and> res = zip [1..int (length items)] cs)"
  using assms
  by (simp add: load_citations_def read_json_file_def read_txt_file_def citations_loop_from_1)

lemma add_citations_some:
  assumes "map_of d ''url_to_info.json'' = Some q" and "add_citations w d a = Inr a'"
  shows "\<exists>cs. load_citations w q = Inr cs \<and> citations a' = Some cs"
  using assms by (auto simp: add_citations_def split: sum.splits)

lemma add_citations_none:
  "map_of d ''url_to_info.json'' = None \<Longrightarrow> add_citations w d a = Inr a"
  by (simp add: add_citations_def)

lemma assemble_record_inv:
  assumes "assemble_article_data w (ArgDict d) = Inr (Some r)"
  shows "\<exists>k p raw parsed a.
           find (\<lambda>f. endswith f ''.md'') (map fst d) = Some k \<and> map_of d k = Some p
         \<and> fs w p = Text raw \<and> parse w raw = Inr parsed
         \<and> add_citations w d (initial_article_data parsed) = Inr a
         \<and> add_conversation_log w d a = Inr r"
proof -
  from assms obtain k where k: "find (\<lambda>f. endswith f ''.md'') (map fst d) = Some k"
    by (auto simp: assemble_article_data_def split: option.splits)
  with assms have body: "assemble_body w d k = Inr r"
    by (auto simp: assemble_dict [OF k] split: sum.splits)
  then obtain p where p: "map_of d k = Some p"
    by (auto simp: assemble_body_def split: option.splits)
  with body obtain raw where raw: "fs w p = Text raw"
    by (auto simp: assemble_body_def read_txt_file_def split: file_state.splits)
  with body p obtain parsed where parsed: "parse w raw = Inr parsed"
    by (auto simp: assemble_body_def read_txt_file_def split: sum.splits)
  from body obtain a where "add_citations w d (initial_article_data parsed) = Inr a"
    and "add_conversation_log w d a = Inr r"
    by (auto simp: assemble_body_parsed [OF p raw parsed] split: sum.splits)
  with k p raw parsed show ?thesis by blast
qed

lemma record_citations:
  assumes "assemble_article_data w (ArgDict d) = Inr (Some r)"
    and "map_of d ''url_to_info.json'' = Some q"
  shows "\<exists>cs. load_citations w q = Inr cs \<and> citations r = Some cs"
proof -
  from assemble_record_inv [OF assms(1)] obtain parsed a where
    a: "add_citations w d (initial_article_data parsed) = Inr a"
    and r: "add_conversation_log w d a = Inr r" by blast
  from add_citations_some [OF assms(2) a] add_conversation_log_fields(4) [OF r]
  show ?thesis by simp
qed

lemma add_conversation_log_none:
  "map_of d ''conversation_log.json'' = None \<Longrightarrow> add_conversation_log w d a = Inr a"
  by (simp add: add_conversation_log_def)


lemma map_of_enumerated:
  assumes "length cs = n" and "i < n"
  shows "map_of (zip [1..int n] cs) (int i + 1) = Some (cs ! i)"
proof -
  have len: "length [1..int n] = length cs" using assms(1) by simp
  have nth: "[1..int n] ! i = int i + 1" using assms(2) by (simp add: nth_upto)
  from map_of_zip_nth [OF len distinct_upto, of i] assms nth show ?thesis by simp
qed

lemma build_citation_fields:
  "\<exists>c. build_citation url (PDict f) = Inr (PDict c)
      \<and> map fst c = [''url'', ''title'', ''description'', ''snippets'']
      \<and> map_of c ''url'' = Some (PStr url)
      \<and> map_of c ''title'' = Some (dict_get f ''title'' (PStr []))
      \<and> map_of c ''description'' = Some (dict_get f ''description'' (PStr []))"
  by (simp add: Let_def)

lemma dict_set_map_of: "map_of (dict_set f k v) = (map_of f)(k \<mapsto> v)"
  by (induction f) (auto simp: fun_eq_iff)

lemma dict_set_keys: "map_of f k = Some v0 \<Longrightarrow> map fst (dict_set f k v) = map fst f"
  by (induction f) (auto split: if_splits)

lemma agent_names_get:
  "dict_get agent_names n (''Agent '' @ str_int n) = spec_agent_name n"
  by (simp add: dict_get_def agent_names_def spec_agent_name_def)

lemma rename_entry_dict:
  "rename_entry (PDict f) =
     Inr (PDict (case map_of f ''agent'' of
                   None \<Rightarrow> f
                 | Some a \<Rightarrow>
                     (case as_int a of
                        None \<Rightarrow> f
                      | Some (n, shown) \<Rightarrow>
                          dict_set f ''agent'' (PStr (dict_get agent_names n (''Agent '' @ shown))))))"
  by (simp add: rename_entry_def split: option.splits)

lemma rename_entry_exn: "rename_entry e = Inl x \<Longrightarrow> x = TypeError"
  by (cases e) (auto simp: rename_entry_def split: if_splits option.splits sum.splits)

lemma rename_entries_exn: "rename_entries es = Inl x \<Longrightarrow> x = TypeError"
  by (induction es) (auto split: sum.splits dest: rename_entry_exn)

lemma rename_agents_exn: "rename_agents v = Inl x \<Longrightarrow> x = TypeError"
  by (cases v) (auto split: sum.splits dest: rename_entries_exn)

lemma rename_entries_char:
  "rename_entries es = Inr es' \<longleftrightarrow> map rename_entry es = map Inr es'"
proof (induction es arbitrary: es')
  case Nil
  then show ?case by auto
next
  case (Cons e es)
  show ?case
  proof (cases "rename_entry e")
    case (Inl x)
    then show ?thesis by auto
  next
    case e: (Inr e')
    show ?thesis
    proof (cases "rename_entries es")
      case (Inl x)
      with Cons.IH have "\<And>es'. map rename_entry es \<noteq> map Inr es'" by simp
      with e Inl show ?thesis by (cases es') auto
    next
      case (Inr r)
      with Cons.IH [of r] have r: "map rename_entry es = map Inr r" by simp
      show ?thesis
      proof
        assume "rename_entries (e # es) = Inr es'"
        with e Inr have "es' = e' # r" by simp
        with e r show "map rename_entry (e # es) = map Inr es'" by simp
      next
        assume a: "map rename_entry (e # es) = map Inr es'"
        then obtain x xs where es': "es' = x # xs" by (cases es') auto
        with a e have "x = e'" and "map rename_entry es = map Inr xs" by simp_all
        with r have "xs = r" by (simp add: inj_map_eq_map [OF inj_Inr])
        with e Inr es' \<open>x = e'\<close> show "rename_entries (e # es) = Inr es'" by simp
      qed
    qed
  qed
qed

lemma renames_of_dicts:
  assumes "\<forall>e \<in> set es. \<exists>f. e = PDict f"
  shows "\<exists>es'. map rename_entry es = map Inr es'"
  using assms
proof (induction es)
  case Nil
  then show ?case by simp
next
  case (Cons e es)
  then obtain es' where es': "map rename_entry es = map Inr es'" by auto
  from Cons.prems obtain f where "e = PDict f" by auto
  then obtain e' where "rename_entry e = Inr e'" by (simp add: rename_entry_dict)
  with es' have "map rename_entry (e # es) = map Inr (e' # es')" by simp
  then show ?case by blast
qed

lemma load_conversation_log_list:
  assumes "fs w q = Text j" and "json_loads w j = Some (PList es)"
  shows "load_conversation_log w q = Inr res \<longleftrightarrow>
     (\<exists>es'. map rename_entry es = map Inr es' \<and> res = Some (PList es'))"
proof (cases "rename_entries es")
  case (Inl x)
  then have "x = TypeError" by (rule rename_entries_exn)
  with Inl assms have "load_conversation_log w q = Inl TypeError"
    by (simp add: load_conversation_log_def read_json_file_def read_txt_file_def)
  moreover from Inl have "\<And>es'. map rename_entry es \<noteq> map Inr es'"
    by (simp add: rename_entries_char [symmetric])
  ultimately show ?thesis by simp
next
  case (Inr r)
  with assms have "load_conversation_log w q = Inr (Some (PList r))"
    by (simp add: load_conversation_log_def read_json_file_def read_txt_file_def)
  moreover have "map rename_entry es = map Inr es' \<longleftrightarrow> es' = r" for es'
    using Inr by (auto simp: rename_entries_char [symmetric])
  ultimately show ?thesis by auto
qed

lemma load_conversation_log_broken:
  assumes "fs w q = Text j" and "json_loads w j = None"
  shows "load_conversation_log w q = Inr None"
  using assms by (simp add: load_conversation_log_def read_json_file_def read_txt_file_def)

lemma add_conversation_log_some:
  assumes "map_of d ''conversation_log.json'' = Some q"
    and "add_conversation_log w d a = Inr a'" and "conversation_log a = None"
  shows "load_conversation_log w q = Inr (conversation_log a')"
  using assms by (auto simp: add_conversation_log_def split: sum.splits option.splits)

lemma record_conversation_log:
  assumes "assemble_article_data w (ArgDict d) = Inr (Some r)"
    and "map_of d ''conversation_log.json'' = Some q"
  shows "load_conversation_log w q = Inr (conversation_log r)"
proof -
  from assemble_record_inv [OF assms(1)] obtain parsed a where
    a: "add_citations w d (initial_article_data parsed) = Inr a"
    and r: "add_conversation_log w d a = Inr r" by blast
  from add_citations_fields(4) [OF a] have "conversation_log a = None"
    by (simp add: initial_article_data_def)
  from add_conversation_log_some [OF assms(2) r this] show ?thesis .
qed

lemma py_key_eq_refl [simp]: "py_key_eq a a"
  by (simp add: py_key_eq_def split: option.splits)

lemma py_key_eq_sym: "py_key_eq a b \<Longrightarrow> py_key_eq b a"
  by (auto simp: py_key_eq_def split: option.splits)

lemma py_key_eq_trans: "py_key_eq a b \<Longrightarrow> py_key_eq b c \<Longrightarrow> py_key_eq a c"
  by (auto simp: py_key_eq_def split: option.splits)

lemma pydict_get_set:
  "pydict_get (pydict_set d k v) k' = (if py_key_eq k k' then Some v else pydict_get d k')"
proof (induction d)
  case Nil
  then show ?case by simp
next
  case (Cons kv d)
  obtain k0 v0 where kv: "kv = (k0, v0)" by (cases kv)
  show ?case
  proof (cases "py_key_eq k0 k")
    case True
    then have "py_key_eq k0 k' \<longleftrightarrow> py_key_eq k k'"
      by (blast intro: py_key_eq_sym py_key_eq_trans)
    with True show ?thesis by (simp add: kv)
  next
    case False
    then have "\<not> (py_key_eq k0 k' \<and> py_key_eq k k')"
      by (blast intro: py_key_eq_sym py_key_eq_trans)
    with False Cons.IH show ?thesis by (auto simp: kv)
  qed
qed

lemma pydict_set_entries:
  "(k, c) \<in> set (pydict_set d k' v) \<Longrightarrow> (k, c) \<in> set d \<or> (c = v \<and> py_key_eq k k')"
  by (induction d) (auto split: if_splits)

lemma search_citation_wf:
  assumes "py_getitem sr ''url_to_info'' = Inr (PDict infos)"
    and "map_of infos url = Some (PDict f)"
    and "map_of f ''title'' = Some t" and "map_of f ''snippet'' = Some s"
  shows "search_citation sr url
     = Inr (PDict [(''url'', PStr url), (''title'', t), (''snippets'', PList [s])])"
  using assms by (simp add: search_citation_def)

lemma search_loop_foldl:
  assumes "\<forall>(url, index) \<in> set pairs. py_hashable index \<and> search_citation sr url = Inr (e url)"
  shows "search_loop sr pairs acc
     = Inr (foldl (\<lambda>cd (url, index). pydict_set cd index (e url)) acc pairs)"
  using assms by (induction pairs arbitrary: acc) auto

lemma foldl_keeps_get:
  assumes "\<forall>(u, i) \<in> set ys. \<not> py_key_eq i index"
  shows "pydict_get (foldl (\<lambda>cd (url, index). pydict_set cd index (e url)) d ys) index
     = pydict_get d index"
  using assms by (induction ys arbitrary: d) (auto simp: pydict_get_set)

lemma foldl_last_wins:
  assumes "\<forall>(u, i) \<in> set ys. \<not> py_key_eq i index"
  shows "pydict_get (foldl (\<lambda>cd (url, index). pydict_set cd index (e url)) acc
            (xs @ (url, index) # ys)) index = Some (e url)"
  using foldl_keeps_get [OF assms] by (simp add: pydict_get_set)

lemma foldl_entries:
  assumes "(k, c) \<in> set (foldl (\<lambda>cd (url, index). pydict_set cd index (e url)) acc pairs)"
  shows "(k, c) \<in> set acc \<or> (\<exists>(url, index) \<in> set pairs. py_key_eq k index \<and> c = e url)"
  using assms
proof (induction pairs arbitrary: acc)
  case Nil
  then show ?case by simp
next
  case (Cons pair pairs)
  obtain url index where pair: "pair = (url, index)" by (cases pair)
  from Cons.prems have "(k, c) \<in> set (foldl (\<lambda>cd (url, index). pydict_set cd index (e url))
      (pydict_set acc index (e url)) pairs)"
    by (simp add: pair)
  from Cons.IH [OF this] show ?case
  proof
    assume "(k, c) \<in> set (pydict_set acc index (e url))"
    from pydict_set_entries [OF this] show ?thesis by (auto simp: pair)
  next
    assume "\<exists>(url, index) \<in> set pairs. py_key_eq k index \<and> c = e url"
    then show ?thesis by auto
  qed
qed

lemma example_search_citations:
  "construct_citation_dict_from_search_result example_search_results
     = Inr (Some
         [(PInt 1, PDict [(''url'', PStr ''http://a''), (''title'', PStr ''A''),
                          (''snippets'', PList [PStr ''x''])]),
          (PInt 2, PDict [(''url'', PStr ''http://b''), (''title'', PStr ''B''),
                          (''snippets'', PList [PStr ''y''])])])"
  by (simp add: construct_citation_dict_from_search_result_def example_search_results_def
      search_citation_def py_key_eq_def)

lemma shared_index_search_citations:
  "construct_citation_dict_from_search_result
       (PDict [(''url_to_unified_index'', PDict [(''http://a'', PInt 1), (''http://b'', PInt 1)]),
               (''url_to_info'', PDict
                  [(''http://a'', PDict [(''title'', PStr ''A''), (''snippet'', PStr ''x'')]),
                   (''http://b'', PDict [(''title'', PStr ''B''), (''snippet'', PStr ''y'')])])])
     = Inr (Some [(PInt 1, PDict [(''url'', PStr ''http://b''), (''title'', PStr ''B''),
                                  (''snippets'', PList [PStr ''y''])])])"
  by (simp add: construct_citation_dict_from_search_result_def search_citation_def py_key_eq_def)

lemma empty_search_results_raise:
  "construct_citation_dict_from_search_result (PDict []) = Inl KeyError"
  by (simp add: construct_citation_dict_from_search_result_def)

section \<open>The claims\<close>

text \<open>
  C1. For a file map whose first key ending in \<^verbatim>\<open>.md\<close> names a readable file (the
  parse step returning \<open>parsed\<close>), the \<^verbatim>\<open>short_text\<close> of every record the function
  returns is the first 100 characters of \<open>parsed\<close> without its title lines, the lines
  that start with one to three \<^verbatim>\<open>#\<close> followed by any text, each dropped with its
  newline. So it is never longer than 100 characters, none of its lines starts with
  one to three \<^verbatim>\<open>#\<close>, and when fewer than 100 characters remain it is all of them.
  A record is returned at least when the map has neither JSON key.
\<close>

theorem short_text_is_first_100_without_titles:
  assumes "find (\<lambda>f. endswith f ''.md'') (map fst d) = Some k"
    and "map_of d k = Some p" and "fs w p = Text raw" and "parse w raw = Inr parsed"
  shows "(\<forall>r. assemble_article_data w (ArgDict d) = Inr (Some r) \<longrightarrow>
            short_text r = take 100 (remove_title_lines parsed)
          \<and> length (short_text r) \<le> 100
          \<and> (\<forall>l \<in> set (py_lines (short_text r)). \<not> title_line l)
          \<and> (length (remove_title_lines parsed) < 100 \<longrightarrow>
               short_text r = remove_title_lines parsed))
       \<and> (map_of d ''url_to_info.json'' = None \<and> map_of d ''conversation_log.json'' = None \<longrightarrow>
            (\<exists>r. assemble_article_data w (ArgDict d) = Inr (Some r)))"
proof (intro conjI allI impI)
  fix r
  assume r: "assemble_article_data w (ArgDict d) = Inr (Some r)"
  have st: "short_text r = take 100 (re_sub_titles None parsed)"
    by (rule assemble_record_fields(2) [OF assms r])
  then show eq: "short_text r = take 100 (remove_title_lines parsed)"
    by (simp only: re_sub_titles_spec)
  then show "length (short_text r) \<le> 100" by simp
  show "\<forall>l \<in> set (py_lines (short_text r)). \<not> title_line l"
    unfolding st by (rule short_text_lines)
  assume "length (remove_title_lines parsed) < 100"
  with eq show "short_text r = remove_title_lines parsed" by simp
next
  assume "map_of d ''url_to_info.json'' = None \<and> map_of d ''conversation_log.json'' = None"
  then have "assemble_article_data w (ArgDict d) = Inr (Some (initial_article_data parsed))"
    by (simp add: assemble_plain [OF assms])
  then show "\<exists>r. assemble_article_data w (ArgDict d) = Inr (Some r)"
    by simp
qed


theorem short_text_is_first_100_without_titles_witness:
  "assemble_article_data example_world
     (ArgDict [(''notes.txt'', ''/t/notes.txt''), (''storm_gen_article.md'', ''/t/storm_gen_article.md'')])
   = Inr (Some \<lparr>article = example_article,
        short_text = ''Intro text.'' @ [newline] @ ''Body'',
        citation = PNone, citations = None, conversation_log = None\<rparr>)
   \<and> take 100 (remove_title_lines example_article) = ''Intro text.'' @ [newline] @ ''Body''
   \<and> py_lines (''Intro text.'' @ [newline] @ ''Body'') = [''Intro text.'' @ [newline], ''Body'']"
proof -
  let ?d = "[(''notes.txt'', ''/t/notes.txt''), (''storm_gen_article.md'', ''/t/storm_gen_article.md'')]"
  have f: "find (\<lambda>f. endswith f ''.md'') (map fst ?d) = Some ''storm_gen_article.md''"
    by (simp add: endswith_def)
  have m: "map_of ?d ''storm_gen_article.md'' = Some ''/t/storm_gen_article.md''" by simp
  have t: "fs example_world ''/t/storm_gen_article.md'' = Text example_article"
    by (simp add: example_world_def)
  have p: "parse example_world example_article = Inr example_article"
    by (simp add: example_world_def)
  have n: "map_of ?d ''url_to_info.json'' = None \<and> map_of ?d ''conversation_log.json'' = None"
    by simp
  from short_text_is_first_100_without_titles [OF f m t p] n
  obtain r where r: "assemble_article_data example_world (ArgDict ?d) = Inr (Some r)"
    and st: "short_text r = take 100 (remove_title_lines example_article)"
    by blast
  have v: "assemble_article_data example_world (ArgDict ?d)
      = Inr (Some \<lparr>article = example_article,
        short_text = ''Intro text.'' @ [newline] @ ''Body'',
        citation = PNone, citations = None, conversation_log = None\<rparr>)"
    by (simp add: assemble_article_data_def assemble_body_def read_txt_file_def
        add_citations_def add_conversation_log_def initial_article_data_def
        example_world_def example_article_def endswith_def title_match_def match_hashes_def)
  with r have "short_text r = ''Intro text.'' @ [newline] @ ''Body''"
    by auto
  with st have "take 100 (remove_title_lines example_article) = ''Intro text.'' @ [newline] @ ''Body''"
    by simp
  moreover have "py_lines (''Intro text.'' @ [newline] @ ''Body'') = [''Intro text.'' @ [newline], ''Body'']"
    by (simp add: py_lines.simps line_head_def line_tail_def)
  ultimately show ?thesis using v by simp
qed

text \<open>
  C10. The substitution also deletes every line that starts with four or more \<^verbatim>\<open>#\<close>:
  at a line that starts with any number \<open>n > 0\<close> of \<^verbatim>\<open>#\<close> the pattern takes the
  first one to three of them and then the rest of the line, so the match is the whole
  line. Hence \<^verbatim>\<open>short_text\<close> is the first 100 characters of the lines of the parsed
  text that start with no \<^verbatim>\<open>#\<close> at all, and no line of it starts with any number of
  \<^verbatim>\<open>#\<close>.
\<close>

theorem every_hash_line_is_removed:
  assumes "find (\<lambda>f. endswith f ''.md'') (map fst d) = Some k"
    and "map_of d k = Some p" and "fs w p = Text raw" and "parse w raw = Inr parsed"
  shows "(\<forall>n t. 0 < n \<longrightarrow>
            title_match (replicate n hash @ t)
              = Some (line_head (replicate n hash @ t), line_tail (replicate n hash @ t)))
       \<and> (\<forall>r. assemble_article_data w (ArgDict d) = Inr (Some r) \<longrightarrow>
            short_text r = take 100 (concat
              (filter (\<lambda>l. \<not> (\<exists>n. 0 < n \<and> starts_with_hashes n l)) (py_lines parsed)))
          \<and> (\<forall>l \<in> set (py_lines (short_text r)). \<forall>n. 0 < n \<longrightarrow> \<not> starts_with_hashes n l))"
proof (intro conjI allI impI)
  fix n :: nat and t
  assume "0 < n"
  then show "title_match (replicate n hash @ t)
      = Some (line_head (replicate n hash @ t), line_tail (replicate n hash @ t))"
    by (rule title_match_hashes)
next
  fix r
  assume r: "assemble_article_data w (ArgDict d) = Inr (Some r)"
  have st: "short_text r = take 100 (re_sub_titles None parsed)"
    by (rule assemble_record_fields(2) [OF assms r])
  then show "short_text r = take 100 (concat
      (filter (\<lambda>l. \<not> (\<exists>n. 0 < n \<and> starts_with_hashes n l)) (py_lines parsed)))"
    by (simp only: re_sub_titles_spec remove_title_lines_def starts_with_hashes_title)
  have nt: "\<forall>l \<in> set (py_lines (short_text r)). \<not> title_line l"
    unfolding st by (rule short_text_lines)
  show "\<forall>l \<in> set (py_lines (short_text r)). \<forall>n. 0 < n \<longrightarrow> \<not> starts_with_hashes n l"
  proof (intro ballI allI impI)
    fix l n
    assume "l \<in> set (py_lines (short_text r))" and "0 < (n::nat)"
    with nt starts_with_hashes_title [of l] show "\<not> starts_with_hashes n l" by blast
  qed
qed

theorem every_hash_line_is_removed_witness:
  "title_match (''#### Deep heading'' @ [newline] @ ''Body'')
     = Some (''#### Deep heading'' @ [newline], ''Body'')
   \<and> py_lines example_article
     = [''# Title'' @ [newline], ''Intro text.'' @ [newline],
        ''#### Deep heading'' @ [newline], ''Body'']
   \<and> starts_with_hashes 4 (''#### Deep heading'' @ [newline])
   \<and> assemble_article_data example_world (ArgDict [(''storm_gen_article.md'', ''/t/storm_gen_article.md'')])
     = Inr (Some \<lparr>article = example_article,
        short_text = ''Intro text.'' @ [newline] @ ''Body'',
        citation = PNone, citations = None, conversation_log = None\<rparr>)
   \<and> take 100 (concat (filter (\<lambda>l. \<not> (\<exists>n. 0 < n \<and> starts_with_hashes n l))
        (py_lines example_article))) = ''Intro text.'' @ [newline] @ ''Body''"
proof -
  let ?d = "[(''storm_gen_article.md'', ''/t/storm_gen_article.md'')]"
  let ?r = "\<lparr>article = example_article,
        short_text = ''Intro text.'' @ [newline] @ ''Body'',
        citation = PNone, citations = None, conversation_log = None\<rparr>"
  have f: "find (\<lambda>f. endswith f ''.md'') (map fst ?d) = Some ''storm_gen_article.md''"
    by (simp add: endswith_def)
  have m: "map_of ?d ''storm_gen_article.md'' = Some ''/t/storm_gen_article.md''" by simp
  have t: "fs example_world ''/t/storm_gen_article.md'' = Text example_article"
    by (simp add: example_world_def)
  have p: "parse example_world example_article = Inr example_article"
    by (simp add: example_world_def)
  note inst = every_hash_line_is_removed [OF f m t p]
  have v: "assemble_article_data example_world (ArgDict ?d) = Inr (Some ?r)"
    by (simp add: assemble_article_data_def assemble_body_def read_txt_file_def
        add_citations_def add_conversation_log_def initial_article_data_def
        example_world_def example_article_def endswith_def title_match_def match_hashes_def)
  from inst v have "short_text ?r = take 100 (concat
      (filter (\<lambda>l. \<not> (\<exists>n. 0 < n \<and> starts_with_hashes n l)) (py_lines example_article)))"
    by blast
  then have s: "take 100 (concat (filter (\<lambda>l. \<not> (\<exists>n. 0 < n \<and> starts_with_hashes n l))
        (py_lines example_article))) = ''Intro text.'' @ [newline] @ ''Body''"
    by simp
  from inst have "title_match (replicate 4 hash @ '' Deep heading'' @ [newline] @ ''Body'')
      = Some (line_head (replicate 4 hash @ '' Deep heading'' @ [newline] @ ''Body''),
              line_tail (replicate 4 hash @ '' Deep heading'' @ [newline] @ ''Body''))"
    by simp
  then have tm: "title_match (''#### Deep heading'' @ [newline] @ ''Body'')
     = Some (''#### Deep heading'' @ [newline], ''Body'')"
    by (simp add: line_head_def line_tail_def eval_nat_numeral)
  have l: "py_lines example_article
     = [''# Title'' @ [newline], ''Intro text.'' @ [newline],
        ''#### Deep heading'' @ [newline], ''Body'']"
    by (simp add: example_article_def py_lines.simps line_head_def line_tail_def)
  have h: "starts_with_hashes 4 (''#### Deep heading'' @ [newline])"
    by (simp add: starts_with_hashes_def eval_nat_numeral)
  from tm l h v s show ?thesis by (intro conjI)
qed

text \<open>
  C2. For a file map whose first \<^verbatim>\<open>.md\<close> key names a readable file and whose key
  \<^verbatim>\<open>url_to_info.json\<close> names a file that is not valid JSON, the function returns
  null. The \<^verbatim>\<open>JSONDecodeError\<close> has no handler of its own: once the article is
  parsed it is the exception the body of the outer \<^verbatim>\<open>try\<close> ends with, and the
  catch-all turns it into null.
\<close>

theorem broken_citation_index_gives_null:
  assumes "find (\<lambda>f. endswith f ''.md'') (map fst d) = Some k"
    and "map_of d k = Some p" and "fs w p = Text raw"
    and "map_of d ''url_to_info.json'' = Some q" and "fs w q = Text j"
    and "json_loads w j = None"
  shows "assemble_article_data w (ArgDict d) = Inr None
       \<and> (\<forall>parsed. parse w raw = Inr parsed \<longrightarrow> assemble_body w d k = Inl JSONDecodeError)"
proof -
  have lc: "load_citations w q = Inl JSONDecodeError"
    using assms(5,6) by (simp add: load_citations_def read_json_file_def read_txt_file_def)
  have ac: "add_citations w d a = Inl JSONDecodeError" for a
    using assms(4) lc by (simp add: add_citations_def)
  have body: "assemble_body w d k = Inl JSONDecodeError" if "parse w raw = Inr parsed" for parsed
    using ac by (simp add: assemble_body_parsed [OF assms(2,3) that])
  have "assemble_article_data w (ArgDict d) = Inr None"
  proof (cases "parse w raw")
    case (Inl e)
    with assms(2,3) have "assemble_body w d k = Inl e"
      by (simp add: assemble_body_def read_txt_file_def)
    then show ?thesis by (simp add: assemble_dict [OF assms(1)])
  next
    case (Inr parsed)
    from body [OF this] show ?thesis by (simp add: assemble_dict [OF assms(1)])
  qed
  with body show ?thesis by simp
qed

theorem broken_citation_index_gives_null_witness:
  "assemble_article_data example_world
     (ArgDict [(''storm_gen_article.md'', ''/t/storm_gen_article.md''),
               (''url_to_info.json'', ''/t/broken.json'')]) = Inr None
   \<and> assemble_body example_world
     [(''storm_gen_article.md'', ''/t/storm_gen_article.md''),
      (''url_to_info.json'', ''/t/broken.json'')] ''storm_gen_article.md'' = Inl JSONDecodeError
   \<and> fs example_world ''/t/broken.json'' = Text ''{''
   \<and> json_loads example_world ''{'' = None"
proof -
  let ?d = "[(''storm_gen_article.md'', ''/t/storm_gen_article.md''),
               (''url_to_info.json'', ''/t/broken.json'')]"
  have f: "find (\<lambda>f. endswith f ''.md'') (map fst ?d) = Some ''storm_gen_article.md''"
    by (simp add: endswith_def)
  have m: "map_of ?d ''storm_gen_article.md'' = Some ''/t/storm_gen_article.md''" by simp
  have t: "fs example_world ''/t/storm_gen_article.md'' = Text example_article"
    by (simp add: example_world_def)
  have u: "map_of ?d ''url_to_info.json'' = Some ''/t/broken.json''" by simp
  have b: "fs example_world ''/t/broken.json'' = Text ''{''"
    by (simp add: example_world_def)
  have j: "json_loads example_world ''{'' = None"
    by (simp add: example_world_def example_url_info_text_def example_log_text_def)
  have p: "parse example_world example_article = Inr example_article"
    by (simp add: example_world_def)
  from broken_citation_index_gives_null [OF f m t u b j] p b j show ?thesis by simp
qed

text \<open>
  C3. For an argument that is no \<^verbatim>\<open>dict\<close> (a list, a string, \<^verbatim>\<open>None\<close>, ...) the
  function raises \<^verbatim>\<open>TypeError\<close>, the invalid-argument error of the description, to
  its caller: the check stands before the \<^verbatim>\<open>try\<close>.
\<close>

theorem non_mapping_raises_type_error:
  assumes "\<forall>d. arg \<noteq> ArgDict d"
  shows "assemble_article_data w arg = Inl TypeError"
  using assms by (cases arg) (simp_all add: assemble_article_data_def)

theorem non_mapping_raises_type_error_witness:
  "assemble_article_data example_world (ArgList [PStr ''storm_gen_article.md'']) = Inl TypeError
   \<and> assemble_article_data example_world (ArgStr ''/t/storm_gen_article.md'') = Inl TypeError
   \<and> assemble_article_data example_world ArgNone = Inl TypeError"
  using non_mapping_raises_type_error [of "ArgList [PStr ''storm_gen_article.md'']" example_world]
    non_mapping_raises_type_error [of "ArgStr ''/t/storm_gen_article.md''" example_world]
    non_mapping_raises_type_error [of ArgNone example_world]
  by simp

text \<open>
  C4. For a \<^verbatim>\<open>dict\<close> from file names to paths the function always returns and
  raises nothing. With no key ending in \<^verbatim>\<open>.md\<close> it returns null. When the file of the first such key is missing,
  cannot be read or cannot be decoded, the exception of the read is what the body of the
  outer \<^verbatim>\<open>try\<close> ends with, and the function returns null.
\<close>

theorem article_failures_give_null:
  "(\<exists>r. assemble_article_data w (ArgDict d) = Inr r)
   \<and> (find (\<lambda>f. endswith f ''.md'') (map fst d) = None \<longrightarrow>
        assemble_article_data w (ArgDict d) = Inr None)
   \<and> (\<forall>k p. find (\<lambda>f. endswith f ''.md'') (map fst d) = Some k \<and> map_of d k = Some p \<longrightarrow>
        (fs w p = Missing \<longrightarrow>
           assemble_body w d k = Inl FileNotFoundError
           \<and> assemble_article_data w (ArgDict d) = Inr None)
      \<and> (fs w p = Unreadable \<longrightarrow>
           assemble_body w d k = Inl IOError
           \<and> assemble_article_data w (ArgDict d) = Inr None)
      \<and> (fs w p = Undecodable \<longrightarrow>
           assemble_body w d k = Inl UnicodeDecodeError
           \<and> assemble_article_data w (ArgDict d) = Inr None))"
proof (intro conjI allI impI)
  show "\<exists>r. assemble_article_data w (ArgDict d) = Inr r"
    by (rule assemble_dict_never_raises)
next
  assume "find (\<lambda>f. endswith f ''.md'') (map fst d) = None"
  then show "assemble_article_data w (ArgDict d) = Inr None"
    by (simp add: assemble_article_data_def)
next
  fix k p
  assume kp: "find (\<lambda>f. endswith f ''.md'') (map fst d) = Some k \<and> map_of d k = Some p"
  then have f: "find (\<lambda>f. endswith f ''.md'') (map fst d) = Some k" and m: "map_of d k = Some p"
    by simp_all
  {
    assume "fs w p = Missing"
    with m show b1: "assemble_body w d k = Inl FileNotFoundError"
      by (simp add: assemble_body_def read_txt_file_def)
    then show "assemble_article_data w (ArgDict d) = Inr None"
      by (simp add: assemble_dict [OF f])
  }
  {
    assume "fs w p = Unreadable"
    with m show b2: "assemble_body w d k = Inl IOError"
      by (simp add: assemble_body_def read_txt_file_def)
    then show "assemble_article_data w (ArgDict d) = Inr None"
      by (simp add: assemble_dict [OF f])
  }
  {
    assume "fs w p = Undecodable"
    with m show b3: "assemble_body w d k = Inl UnicodeDecodeError"
      by (simp add: assemble_body_def read_txt_file_def)
    then show "assemble_article_data w (ArgDict d) = Inr None"
      by (simp add: assemble_dict [OF f])
  }
qed

theorem article_failures_give_null_witness:
  "assemble_article_data example_world (ArgDict [(''url_to_info.json'', ''/t/url_to_info.json'')])
     = Inr None
   \<and> assemble_body example_world [(''gone.md'', ''/t/gone.md'')] ''gone.md'' = Inl FileNotFoundError
   \<and> assemble_article_data example_world (ArgDict [(''gone.md'', ''/t/gone.md'')]) = Inr None
   \<and> assemble_body example_world [(''locked.md'', ''/t/locked.md'')] ''locked.md'' = Inl IOError
   \<and> assemble_article_data example_world (ArgDict [(''locked.md'', ''/t/locked.md'')]) = Inr None"
proof -
  have n: "find (\<lambda>f. endswith f ''.md'') (map fst [(''url_to_info.json'', ''/t/url_to_info.json'')]) = None"
    by (simp add: endswith_def)
  have g: "find (\<lambda>f. endswith f ''.md'') (map fst [(''gone.md'', ''/t/gone.md'')]) = Some ''gone.md''
      \<and> map_of [(''gone.md'', ''/t/gone.md'')] ''gone.md'' = Some ''/t/gone.md''"
    by (simp add: endswith_def)
  have gm: "fs example_world ''/t/gone.md'' = Missing"
    by (simp add: example_world_def)
  have l: "find (\<lambda>f. endswith f ''.md'') (map fst [(''locked.md'', ''/t/locked.md'')]) = Some ''locked.md''
      \<and> map_of [(''locked.md'', ''/t/locked.md'')] ''locked.md'' = Some ''/t/locked.md''"
    by (simp add: endswith_def)
  have lm: "fs example_world ''/t/locked.md'' = Unreadable"
    by (simp add: example_world_def)
  from article_failures_give_null [of example_world "[(''url_to_info.json'', ''/t/url_to_info.json'')]"] n
  have 1: "assemble_article_data example_world (ArgDict [(''url_to_info.json'', ''/t/url_to_info.json'')])
     = Inr None" by blast
  from article_failures_give_null [of example_world "[(''gone.md'', ''/t/gone.md'')]"] g gm
  have 2: "assemble_body example_world [(''gone.md'', ''/t/gone.md'')] ''gone.md'' = Inl FileNotFoundError
     \<and> assemble_article_data example_world (ArgDict [(''gone.md'', ''/t/gone.md'')]) = Inr None"
    by blast
  from article_failures_give_null [of example_world "[(''locked.md'', ''/t/locked.md'')]"] l lm
  have 3: "assemble_body example_world [(''locked.md'', ''/t/locked.md'')] ''locked.md'' = Inl IOError
     \<and> assemble_article_data example_world (ArgDict [(''locked.md'', ''/t/locked.md'')]) = Inr None"
    by blast
  from 1 2 3 show ?thesis by simp
qed

text \<open>
  C6. When the map has the key \<^verbatim>\<open>url_to_info.json\<close> and the file decodes to an object
  whose \<^verbatim>\<open>url_to_info\<close> field is a mapping \<open>items\<close> (an empty one when the field is
  missing), the citations are the citations built for the entries of \<open>items\<close>, in the
  order \<open>items\<close> has them, under the keys \<open>1, 2, ..., length items\<close>: this is what
  the loop returns when every info is a record, and it is the \<^verbatim>\<open>citations\<close> field of
  every record the function returns. For two urls \<open>a\<close> then \<open>b\<close> it is
  \<open>{1: citation of a, 2: citation of b}\<close>. A citation is built without error for
  every info record; a missing \<^verbatim>\<open>title\<close> or \<^verbatim>\<open>description\<close> becomes the empty
  string and missing snippets the empty list. A record is returned at least when the
  article can be read and parsed and the map has no conversation log.
\<close>

theorem citations_follow_stored_order:
  assumes "map_of d ''url_to_info.json'' = Some q" and "fs w q = Text j"
    and "json_loads w j = Some (PDict url_info)"
    and "dict_get url_info ''url_to_info'' (PDict []) = PDict items"
  shows "((\<forall>(url, info) \<in> set items. \<exists>f. info = PDict f) \<longrightarrow>
            (\<exists>cs. map (\<lambda>(url, info). build_citation url info) items = map Inr cs
                \<and> load_citations w q = Inr (zip [1..int (length items)] cs)))
       \<and> (\<forall>r. assemble_article_data w (ArgDict d) = Inr (Some r) \<longrightarrow>
            (\<exists>cs. map (\<lambda>(url, info). build_citation url info) items = map Inr cs
                \<and> citations r = Some (zip [1..int (length items)] cs)
                \<and> map fst (zip [1..int (length items)] cs) = [1..int (length items)]))
       \<and> (\<forall>a ia b ib. items = [(a, PDict ia), (b, PDict ib)] \<longrightarrow>
            (\<exists>ca cb. build_citation a (PDict ia) = Inr ca \<and> build_citation b (PDict ib) = Inr cb
                \<and> load_citations w q = Inr [(1, ca), (2, cb)]))
       \<and> (\<forall>url f. \<exists>c. build_citation url (PDict f) = Inr (PDict c)
             \<and> map_of c ''url'' = Some (PStr url)
             \<and> (map_of f ''title'' = None \<longrightarrow> map_of c ''title'' = Some (PStr []))
             \<and> (map_of f ''description'' = None \<longrightarrow> map_of c ''description'' = Some (PStr []))
             \<and> (map_of f ''snippets'' = None \<and> map_of f ''snippet'' = None \<longrightarrow>
                  map_of c ''snippets'' = Some (PList []))
             \<and> (\<forall>v. map_of f ''title'' = Some v \<longrightarrow> map_of c ''title'' = Some v)
             \<and> (\<forall>v. map_of f ''description'' = Some v \<longrightarrow> map_of c ''description'' = Some v))
       \<and> (\<forall>k p raw parsed.
             find (\<lambda>f. endswith f ''.md'') (map fst d) = Some k \<and> map_of d k = Some p
           \<and> fs w p = Text raw \<and> parse w raw = Inr parsed
           \<and> (\<forall>(url, info) \<in> set items. \<exists>f. info = PDict f)
           \<and> map_of d ''conversation_log.json'' = None \<longrightarrow>
             (\<exists>r. assemble_article_data w (ArgDict d) = Inr (Some r)))"
proof -
  note lc = load_citations_char [OF assms(2-4)]
  have 1: "\<exists>cs. map (\<lambda>(url, info). build_citation url info) items = map Inr cs
      \<and> load_citations w q = Inr (zip [1..int (length items)] cs)"
    if "\<forall>(url, info) \<in> set items. \<exists>f. info = PDict f"
    using builds_of_dicts [OF that] lc by blast
  have 2: "\<exists>cs. map (\<lambda>(url, info). build_citation url info) items = map Inr cs
      \<and> citations r = Some (zip [1..int (length items)] cs)
      \<and> map fst (zip [1..int (length items)] cs) = [1..int (length items)]"
    if r: "assemble_article_data w (ArgDict d) = Inr (Some r)" for r
  proof -
    from record_citations [OF r assms(1)] lc obtain cs where
      cs: "map (\<lambda>(url, info). build_citation url info) items = map Inr cs"
      and c: "citations r = Some (zip [1..int (length items)] cs)" by auto
    from cs have "length cs = length items" by (metis length_map)
    then have "map fst (zip [1..int (length items)] cs) = [1..int (length items)]"
      by simp
    with cs c show ?thesis by blast
  qed
  have 3: "\<exists>ca cb. build_citation a (PDict ia) = Inr ca \<and> build_citation b (PDict ib) = Inr cb
      \<and> load_citations w q = Inr [(1, ca), (2, cb)]"
    if items: "items = [(a, PDict ia), (b, PDict ib)]" for a ia b ib
  proof -
    from build_citation_fields [of a ia] obtain ca where ca: "build_citation a (PDict ia) = Inr ca"
      by blast
    from build_citation_fields [of b ib] obtain cb where cb: "build_citation b (PDict ib) = Inr cb"
      by blast
    have "map (\<lambda>(url, info). build_citation url info) items = map Inr [ca, cb]"
      by (simp add: items ca cb del: build_citation.simps)
    moreover have "zip [1..int (length items)] [ca, cb] = [(1, ca), (2, cb)]"
      by (simp add: items upto_rec1)
    ultimately have "load_citations w q = Inr [(1, ca), (2, cb)]"
      using lc by metis
    with ca cb show ?thesis by blast
  qed
  have 4: "\<exists>c. build_citation url (PDict f) = Inr (PDict c)
             \<and> map_of c ''url'' = Some (PStr url)
             \<and> (map_of f ''title'' = None \<longrightarrow> map_of c ''title'' = Some (PStr []))
             \<and> (map_of f ''description'' = None \<longrightarrow> map_of c ''description'' = Some (PStr []))
             \<and> (map_of f ''snippets'' = None \<and> map_of f ''snippet'' = None \<longrightarrow>
                  map_of c ''snippets'' = Some (PList []))
             \<and> (\<forall>v. map_of f ''title'' = Some v \<longrightarrow> map_of c ''title'' = Some v)
             \<and> (\<forall>v. map_of f ''description'' = Some v \<longrightarrow> map_of c ''description'' = Some v)"
    for url f
    by (simp add: Let_def dict_get_def)
  have 5: "\<exists>r. assemble_article_data w (ArgDict d) = Inr (Some r)"
    if h: "find (\<lambda>f. endswith f ''.md'') (map fst d) = Some k \<and> map_of d k = Some p
           \<and> fs w p = Text raw \<and> parse w raw = Inr parsed
           \<and> (\<forall>(url, info) \<in> set items. \<exists>f. info = PDict f)
           \<and> map_of d ''conversation_log.json'' = None" for k p raw parsed
  proof -
    from h 1 obtain cs where "load_citations w q = Inr cs" by blast
    then obtain a where a: "add_citations w d (initial_article_data parsed) = Inr a"
      using assms(1) by (simp add: add_citations_def)
    from h have "add_conversation_log w d a = Inr a"
      by (simp add: add_conversation_log_none)
    from assemble_returns [OF _ _ _ _ a this] h show ?thesis by blast
  qed
  from 1 2 3 4 5 show ?thesis by blast
qed

theorem citations_follow_stored_order_witness:
  "map_of [(''storm_gen_article.md'', ''/t/storm_gen_article.md''),
           (''url_to_info.json'', ''/t/url_to_info.json'')] ''url_to_info.json''
     = Some ''/t/url_to_info.json''
   \<and> fs example_world ''/t/url_to_info.json'' = Text example_url_info_text
   \<and> json_loads example_world example_url_info_text = Some example_url_info
   \<and> load_citations example_world ''/t/url_to_info.json''
     = Inr [(1, PDict [(''url'', PStr ''http://a''), (''title'', PStr ''A''),
                       (''description'', PStr []), (''snippets'', PList [PStr ''x''])]),
            (2, PDict [(''url'', PStr ''http://b''), (''title'', PStr []),
                       (''description'', PStr ''about b''),
                       (''snippets'', PList [PStr ''s1'', PStr ''s2''])])]
   \<and> assemble_article_data example_world
       (ArgDict [(''storm_gen_article.md'', ''/t/storm_gen_article.md''),
                 (''url_to_info.json'', ''/t/url_to_info.json'')])
     = Inr (Some \<lparr>article = example_article,
        short_text = ''Intro text.'' @ [newline] @ ''Body'',
        citation = PNone,
        citations = Some
          [(1, PDict [(''url'', PStr ''http://a''), (''title'', PStr ''A''),
                      (''description'', PStr []), (''snippets'', PList [PStr ''x''])]),
           (2, PDict [(''url'', PStr ''http://b''), (''title'', PStr []),
                      (''description'', PStr ''about b''),
                      (''snippets'', PList [PStr ''s1'', PStr ''s2''])])],
        conversation_log = None\<rparr>)"
proof -
  let ?d = "[(''storm_gen_article.md'', ''/t/storm_gen_article.md''),
             (''url_to_info.json'', ''/t/url_to_info.json'')]"
  let ?ia = "[(''title'', PStr ''A''), (''snippets'', PList []), (''snippet'', PStr ''x'')]"
  let ?ib = "[(''description'', PStr ''about b''), (''snippets'', PList [PStr ''s1'', PStr ''s2''])]"
  let ?items = "[(''http://a'', PDict ?ia), (''http://b'', PDict ?ib)]"
  have m: "map_of ?d ''url_to_info.json'' = Some ''/t/url_to_info.json''" by simp
  have t: "fs example_world ''/t/url_to_info.json'' = Text example_url_info_text"
    by (simp add: example_world_def)
  have j: "json_loads example_world example_url_info_text
      = Some (PDict [(''url_to_info'', PDict ?items)])"
    by (simp add: example_world_def example_url_info_def)
  have g: "dict_get [(''url_to_info'', PDict ?items)] ''url_to_info'' (PDict []) = PDict ?items"
    by (simp add: dict_get_def)
  note two = citations_follow_stored_order [OF m t j g, THEN conjunct2, THEN conjunct2,
      THEN conjunct1, rule_format, of "''http://a''" ?ia "''http://b''" ?ib, OF refl]
  then obtain ca cb where ca: "build_citation ''http://a'' (PDict ?ia) = Inr ca"
    and cb: "build_citation ''http://b'' (PDict ?ib) = Inr cb"
    and lc: "load_citations example_world ''/t/url_to_info.json'' = Inr [(1, ca), (2, cb)]"
    by (elim exE conjE)
  from ca have ca': "ca = PDict [(''url'', PStr ''http://a''), (''title'', PStr ''A''),
      (''description'', PStr []), (''snippets'', PList [PStr ''x''])]"
    by (simp add: dict_get_def)
  from cb have cb': "cb = PDict [(''url'', PStr ''http://b''), (''title'', PStr []),
      (''description'', PStr ''about b''), (''snippets'', PList [PStr ''s1'', PStr ''s2''])]"
    by (simp add: dict_get_def)
  have l: "load_citations example_world ''/t/url_to_info.json''
     = Inr [(1, PDict [(''url'', PStr ''http://a''), (''title'', PStr ''A''),
                       (''description'', PStr []), (''snippets'', PList [PStr ''x''])]),
            (2, PDict [(''url'', PStr ''http://b''), (''title'', PStr []),
                       (''description'', PStr ''about b''),
                       (''snippets'', PList [PStr ''s1'', PStr ''s2''])])]"
    unfolding lc ca' cb' by (rule refl)
  have f: "find (\<lambda>f. endswith f ''.md'') (map fst ?d) = Some ''storm_gen_article.md''"
    by (simp add: endswith_def)
  have mk: "map_of ?d ''storm_gen_article.md'' = Some ''/t/storm_gen_article.md''" by simp
  have tk: "fs example_world ''/t/storm_gen_article.md'' = Text example_article"
    by (simp add: example_world_def)
  have p: "parse example_world example_article = Inr example_article"
    by (simp add: example_world_def)
  have a: "add_citations example_world ?d (initial_article_data example_article)
      = Inr (initial_article_data example_article\<lparr>citations := Some
          [(1, PDict [(''url'', PStr ''http://a''), (''title'', PStr ''A''),
                      (''description'', PStr []), (''snippets'', PList [PStr ''x''])]),
           (2, PDict [(''url'', PStr ''http://b''), (''title'', PStr []),
                      (''description'', PStr ''about b''),
                      (''snippets'', PList [PStr ''s1'', PStr ''s2''])])]\<rparr>)"
    by (simp add: add_citations_def l)
  have c: "add_conversation_log example_world ?d a = Inr a" for a
    by (simp add: add_conversation_log_def)
  have v: "assemble_article_data example_world (ArgDict ?d)
     = Inr (Some \<lparr>article = example_article,
        short_text = ''Intro text.'' @ [newline] @ ''Body'',
        citation = PNone,
        citations = Some
          [(1, PDict [(''url'', PStr ''http://a''), (''title'', PStr ''A''),
                      (''description'', PStr []), (''snippets'', PList [PStr ''x''])]),
           (2, PDict [(''url'', PStr ''http://b''), (''title'', PStr []),
                      (''description'', PStr ''about b''),
                      (''snippets'', PList [PStr ''s1'', PStr ''s2''])])],
        conversation_log = None\<rparr>)"
    by (simp add: assemble_returns [OF f mk tk p a c] example_initial)
  from m t j l v show ?thesis by (simp add: example_url_info_def)
qed

text \<open>
  C8. For an info record whose \<^verbatim>\<open>snippets\<close> is missing or the empty list and whose
  \<^verbatim>\<open>snippet\<close> is a string \<open>x\<close>, the citation built has \<^verbatim>\<open>snippets\<close> equal to the
  one-element list of \<open>x\<close>; and when that record is entry \<open>i\<close> (counted from 0) of
  the \<^verbatim>\<open>url_to_info\<close> mapping, citation \<open>i + 1\<close> of every record the function
  returns has these snippets.
\<close>

theorem single_snippet_becomes_list:
  assumes "map_of f ''snippets'' = None \<or> map_of f ''snippets'' = Some (PList [])"
    and "map_of f ''snippet'' = Some (PStr x)"
  shows "build_citation url (PDict f)
       = Inr (PDict [(''url'', PStr url),
                     (''title'', dict_get f ''title'' (PStr [])),
                     (''description'', dict_get f ''description'' (PStr [])),
                     (''snippets'', PList [PStr x])])
     \<and> (\<forall>w d q j url_info items i r.
            map_of d ''url_to_info.json'' = Some q \<and> fs w q = Text j
          \<and> json_loads w j = Some (PDict url_info)
          \<and> dict_get url_info ''url_to_info'' (PDict []) = PDict items
          \<and> i < length items \<and> items ! i = (url, PDict f)
          \<and> assemble_article_data w (ArgDict d) = Inr (Some r) \<longrightarrow>
            (\<exists>cs c. citations r = Some cs \<and> map_of cs (int i + 1) = Some (PDict c)
                \<and> map_of c ''snippets'' = Some (PList [PStr x])))"
proof -
  let ?c = "[(''url'', PStr url),
             (''title'', dict_get f ''title'' (PStr [])),
             (''description'', dict_get f ''description'' (PStr [])),
             (''snippets'', PList [PStr x])]"
  from assms have "dict_get f ''snippets'' (PList []) = PList []"
    by (auto simp: dict_get_def)
  with assms(2) have b: "build_citation url (PDict f) = Inr (PDict ?c)"
    by (simp add: Let_def)
  have "\<exists>cs c. citations r = Some cs \<and> map_of cs (int i + 1) = Some (PDict c)
                \<and> map_of c ''snippets'' = Some (PList [PStr x])"
    if h: "map_of d ''url_to_info.json'' = Some q \<and> fs w q = Text j
          \<and> json_loads w j = Some (PDict url_info)
          \<and> dict_get url_info ''url_to_info'' (PDict []) = PDict items
          \<and> i < length items \<and> items ! i = (url, PDict f)
          \<and> assemble_article_data w (ArgDict d) = Inr (Some r)"
    for w d q j url_info items i r
  proof -
    from h have m: "map_of d ''url_to_info.json'' = Some q" and t: "fs w q = Text j"
      and jl: "json_loads w j = Some (PDict url_info)"
      and g: "dict_get url_info ''url_to_info'' (PDict []) = PDict items"
      and i: "i < length items" and it: "items ! i = (url, PDict f)"
      and r: "assemble_article_data w (ArgDict d) = Inr (Some r)" by simp_all
    from record_citations [OF r m] load_citations_char [OF t jl g] obtain cs where
      cs: "map (\<lambda>(url, info). build_citation url info) items = map Inr cs"
      and c: "citations r = Some (zip [1..int (length items)] cs)" by auto
    from cs have len: "length cs = length items" by (metis length_map)
    from cs i have "(\<lambda>(url, info). build_citation url info) (items ! i) = Inr (cs ! i)"
      by (metis len nth_map)
    with it b have ci: "cs ! i = PDict ?c" by (simp del: build_citation.simps)
    from map_of_enumerated [OF len i] ci
    have "map_of (zip [1..int (length items)] cs) (int i + 1) = Some (PDict ?c)" by simp
    moreover have "map_of ?c ''snippets'' = Some (PList [PStr x])" by simp
    ultimately show ?thesis using c by blast
  qed
  with b show ?thesis by blast
qed

theorem single_snippet_becomes_list_witness:
  "build_citation ''http://a''
     (PDict [(''title'', PStr ''A''), (''snippets'', PList []), (''snippet'', PStr ''x'')])
   = Inr (PDict [(''url'', PStr ''http://a''), (''title'', PStr ''A''),
                 (''description'', PStr []), (''snippets'', PList [PStr ''x''])])
   \<and> build_citation ''http://c'' (PDict [(''snippet'', PStr ''only'')])
   = Inr (PDict [(''url'', PStr ''http://c''), (''title'', PStr []),
                 (''description'', PStr []), (''snippets'', PList [PStr ''only''])])"
proof -
  let ?f = "[(''title'', PStr ''A''), (''snippets'', PList []), (''snippet'', PStr ''x'')]"
  let ?g = "[(''snippet'', PStr ''only'')]"
  have 1: "map_of ?f ''snippets'' = None \<or> map_of ?f ''snippets'' = Some (PList [])" by simp
  have 2: "map_of ?f ''snippet'' = Some (PStr ''x'')" by simp
  have 3: "map_of ?g ''snippets'' = None \<or> map_of ?g ''snippets'' = Some (PList [])" by simp
  have 4: "map_of ?g ''snippet'' = Some (PStr ''only'')" by simp
  from single_snippet_becomes_list [OF 1 2, of "''http://a''"]
    single_snippet_becomes_list [OF 3 4, of "''http://c''"]
  show ?thesis by (simp add: dict_get_def del: build_citation.simps)
qed

text \<open>
  C7. When the map has the key \<^verbatim>\<open>conversation_log.json\<close> and the file decodes to a
  list of entries: an entry (a record) whose \<^verbatim>\<open>agent\<close> is the integer \<open>n\<close> gets
  \<^verbatim>\<open>agent\<close> replaced, in place, by \<open>User\<close> for 0, \<open>AI Assistant\<close> for 1,
  \<open>Expert\<close> for 2 and \<open>Agent n\<close> for any other \<open>n\<close>, its other fields and the
  order of its keys staying as they are; an entry with no \<^verbatim>\<open>agent\<close> is left as it
  is. The list of the entries after this is what the step yields when every entry is a
  record, and it is the \<^verbatim>\<open>conversation_log\<close> of every record the function returns. A
  record is returned at least when the article can be read and parsed and the map has no
  citation index.
\<close>

theorem agents_are_renamed:
  assumes "map_of d ''conversation_log.json'' = Some q" and "fs w q = Text j"
    and "json_loads w j = Some (PList entries)"
  shows "(\<forall>f n. map_of f ''agent'' = Some (PInt n) \<longrightarrow>
            (\<exists>f'. rename_entry (PDict f) = Inr (PDict f')
                \<and> f' = dict_set f ''agent'' (PStr (spec_agent_name n))
                \<and> map fst f' = map fst f
                \<and> map_of f' = (map_of f)(''agent'' \<mapsto> PStr (spec_agent_name n))))
       \<and> (\<forall>f. map_of f ''agent'' = None \<longrightarrow> rename_entry (PDict f) = Inr (PDict f))
       \<and> ((\<forall>e \<in> set entries. \<exists>f. e = PDict f) \<longrightarrow>
            (\<exists>entries'. map rename_entry entries = map Inr entries'
                \<and> load_conversation_log w q = Inr (Some (PList entries'))))
       \<and> (\<forall>r. assemble_article_data w (ArgDict d) = Inr (Some r) \<longrightarrow>
            (\<exists>entries'. map rename_entry entries = map Inr entries'
                \<and> conversation_log r = Some (PList entries')))
       \<and> (\<forall>k p raw parsed.
             find (\<lambda>f. endswith f ''.md'') (map fst d) = Some k \<and> map_of d k = Some p
           \<and> fs w p = Text raw \<and> parse w raw = Inr parsed
           \<and> (\<forall>e \<in> set entries. \<exists>f. e = PDict f)
           \<and> map_of d ''url_to_info.json'' = None \<longrightarrow>
             (\<exists>r. assemble_article_data w (ArgDict d) = Inr (Some r)))"
proof -
  note ll = load_conversation_log_list [OF assms(2,3)]
  have 1: "\<exists>f'. rename_entry (PDict f) = Inr (PDict f')
                \<and> f' = dict_set f ''agent'' (PStr (spec_agent_name n))
                \<and> map fst f' = map fst f
                \<and> map_of f' = (map_of f)(''agent'' \<mapsto> PStr (spec_agent_name n))"
    if "map_of f ''agent'' = Some (PInt n)" for f n
  proof -
    have "rename_entry (PDict f) = Inr (PDict (dict_set f ''agent'' (PStr (spec_agent_name n))))"
      using that by (simp add: rename_entry_dict agent_names_get [symmetric])
    with dict_set_keys [OF that] show ?thesis by (simp add: dict_set_map_of)
  qed
  have 2: "rename_entry (PDict f) = Inr (PDict f)" if "map_of f ''agent'' = None" for f
    using that by (simp add: rename_entry_dict)
  have 3: "\<exists>entries'. map rename_entry entries = map Inr entries'
      \<and> load_conversation_log w q = Inr (Some (PList entries'))"
    if "\<forall>e \<in> set entries. \<exists>f. e = PDict f"
    using renames_of_dicts [OF that] ll by blast
  have 4: "\<exists>entries'. map rename_entry entries = map Inr entries'
      \<and> conversation_log r = Some (PList entries')"
    if "assemble_article_data w (ArgDict d) = Inr (Some r)" for r
    using record_conversation_log [OF that assms(1)] ll by blast
  have 5: "\<exists>r. assemble_article_data w (ArgDict d) = Inr (Some r)"
    if h: "find (\<lambda>f. endswith f ''.md'') (map fst d) = Some k \<and> map_of d k = Some p
           \<and> fs w p = Text raw \<and> parse w raw = Inr parsed
           \<and> (\<forall>e \<in> set entries. \<exists>f. e = PDict f)
           \<and> map_of d ''url_to_info.json'' = None" for k p raw parsed
  proof -
    from h 3 obtain lg where "load_conversation_log w q = Inr (Some lg)" by blast
    then obtain r where r: "add_conversation_log w d (initial_article_data parsed) = Inr r"
      using assms(1) by (simp add: add_conversation_log_def)
    from h have a: "add_citations w d (initial_article_data parsed) = Inr (initial_article_data parsed)"
      by (simp add: add_citations_none)
    from assemble_returns [OF _ _ _ _ a r] h show ?thesis by blast
  qed
  from 1 2 3 4 5 show ?thesis by blast
qed

theorem agents_are_renamed_witness:
  "json_loads example_world example_log_text
     = Some (PList [PDict [(''agent'', PInt 0), (''text'', PStr ''hi'')],
                    PDict [(''agent'', PInt 5), (''text'', PStr ''yo'')],
                    PDict [(''text'', PStr ''no agent'')]])
   \<and> load_conversation_log example_world ''/t/conversation_log.json''
     = Inr (Some (PList [PDict [(''agent'', PStr ''User''), (''text'', PStr ''hi'')],
                         PDict [(''agent'', PStr ''Agent 5''), (''text'', PStr ''yo'')],
                         PDict [(''text'', PStr ''no agent'')]]))
   \<and> assemble_article_data example_world
       (ArgDict [(''storm_gen_article.md'', ''/t/storm_gen_article.md''),
                 (''conversation_log.json'', ''/t/conversation_log.json'')])
     = Inr (Some \<lparr>article = example_article,
        short_text = ''Intro text.'' @ [newline] @ ''Body'',
        citation = PNone, citations = None,
        conversation_log = Some
          (PList [PDict [(''agent'', PStr ''User''), (''text'', PStr ''hi'')],
                  PDict [(''agent'', PStr ''Agent 5''), (''text'', PStr ''yo'')],
                  PDict [(''text'', PStr ''no agent'')]])\<rparr>)"
proof -
  let ?d = "[(''storm_gen_article.md'', ''/t/storm_gen_article.md''),
             (''conversation_log.json'', ''/t/conversation_log.json'')]"
  let ?es = "[PDict [(''agent'', PInt 0), (''text'', PStr ''hi'')],
              PDict [(''agent'', PInt 5), (''text'', PStr ''yo'')],
              PDict [(''text'', PStr ''no agent'')]]"
  let ?es' = "[PDict [(''agent'', PStr ''User''), (''text'', PStr ''hi'')],
               PDict [(''agent'', PStr ''Agent 5''), (''text'', PStr ''yo'')],
               PDict [(''text'', PStr ''no agent'')]]"
  have m: "map_of ?d ''conversation_log.json'' = Some ''/t/conversation_log.json''" by simp
  have t: "fs example_world ''/t/conversation_log.json'' = Text example_log_text"
    by (simp add: example_world_def)
  have j: "json_loads example_world example_log_text = Some (PList ?es)"
    by (simp add: example_world_def example_log_def example_url_info_text_def
        example_log_text_def)
  have dicts: "\<forall>e \<in> set ?es. \<exists>f. e = PDict f" by simp
  from agents_are_renamed [OF m t j, THEN conjunct2, THEN conjunct2, THEN conjunct1,
      THEN mp, OF dicts]
  obtain es' where es': "map rename_entry ?es = map Inr es'"
    and l: "load_conversation_log example_world ''/t/conversation_log.json'' = Inr (Some (PList es'))"
    by (elim exE conjE)
  have "map rename_entry ?es = map Inr ?es'"
    by (simp add: rename_entry_dict dict_get_def agent_names_def str_int_def str_nat.simps
        digit_char_def)
  with es' have "es' = ?es'" by (simp only: inj_map_eq_map [OF inj_Inr])
  with l have l': "load_conversation_log example_world ''/t/conversation_log.json''
      = Inr (Some (PList ?es'))" by simp
  have f: "find (\<lambda>f. endswith f ''.md'') (map fst ?d) = Some ''storm_gen_article.md''"
    by (simp add: endswith_def)
  have mk: "map_of ?d ''storm_gen_article.md'' = Some ''/t/storm_gen_article.md''" by simp
  have tk: "fs example_world ''/t/storm_gen_article.md'' = Text example_article"
    by (simp add: example_world_def)
  have p: "parse example_world example_article = Inr example_article"
    by (simp add: example_world_def)
  have a: "add_citations example_world ?d a = Inr a" for a
    by (simp add: add_citations_def)
  have c: "add_conversation_log example_world ?d (initial_article_data example_article)
      = Inr (initial_article_data example_article\<lparr>conversation_log := Some (PList ?es')\<rparr>)"
    by (simp add: add_conversation_log_def l')
  have v: "assemble_article_data example_world (ArgDict ?d)
     = Inr (Some \<lparr>article = example_article,
        short_text = ''Intro text.'' @ [newline] @ ''Body'',
        citation = PNone, citations = None,
        conversation_log = Some (PList ?es')\<rparr>)"
    by (simp add: assemble_returns [OF f mk tk p a c] example_initial)
  from j l' v show ?thesis by simp
qed

text \<open>
  C5, as the claim states it, fails: with a readable article and a conversation log that
  is not valid JSON the function still returns null when the citation index is broken
  too, since the index is read first and its exception ends the outer \<^verbatim>\<open>try\<close>.
\<close>

theorem broken_log_and_broken_index_counterexample:
  "find (\<lambda>f. endswith f ''.md'')
     (map fst [(''storm_gen_article.md'', ''/t/storm_gen_article.md''),
               (''url_to_info.json'', ''/t/broken.json''),
               (''conversation_log.json'', ''/t/broken.json'')])
     = Some ''storm_gen_article.md''
   \<and> fs example_world ''/t/storm_gen_article.md'' = Text example_article
   \<and> parse example_world example_article = Inr example_article
   \<and> map_of [(''storm_gen_article.md'', ''/t/storm_gen_article.md''),
             (''url_to_info.json'', ''/t/broken.json''),
             (''conversation_log.json'', ''/t/broken.json'')] ''conversation_log.json''
     = Some ''/t/broken.json''
   \<and> fs example_world ''/t/broken.json'' = Text ''{''
   \<and> json_loads example_world ''{'' = None
   \<and> assemble_article_data example_world
       (ArgDict [(''storm_gen_article.md'', ''/t/storm_gen_article.md''),
                 (''url_to_info.json'', ''/t/broken.json''),
                 (''conversation_log.json'', ''/t/broken.json'')])
     = Inr None"
proof -
  let ?d = "[(''storm_gen_article.md'', ''/t/storm_gen_article.md''),
             (''url_to_info.json'', ''/t/broken.json''),
             (''conversation_log.json'', ''/t/broken.json'')]"
  have f: "find (\<lambda>f. endswith f ''.md'') (map fst ?d) = Some ''storm_gen_article.md''"
    by (simp add: endswith_def)
  have mk: "map_of ?d ''storm_gen_article.md'' = Some ''/t/storm_gen_article.md''" by simp
  have tk: "fs example_world ''/t/storm_gen_article.md'' = Text example_article"
    by (simp add: example_world_def)
  have p: "parse example_world example_article = Inr example_article"
    by (simp add: example_world_def)
  have b: "fs example_world ''/t/broken.json'' = Text ''{''"
    by (simp add: example_world_def)
  have j: "json_loads example_world ''{'' = None"
    by (simp add: example_world_def example_url_info_text_def example_log_text_def)
  have "load_citations example_world ''/t/broken.json'' = Inl JSONDecodeError"
    by (simp add: load_citations_def read_json_file_def read_txt_file_def b j)
  then have "add_citations example_world ?d (initial_article_data example_article)
      = Inl JSONDecodeError"
    by (simp add: add_citations_def)
  then have "assemble_body example_world ?d ''storm_gen_article.md'' = Inl JSONDecodeError"
    by (simp add: assemble_body_parsed [OF mk tk p])
  then have "assemble_article_data example_world (ArgDict ?d) = Inr None"
    by (simp add: assemble_dict [OF f])
  with f tk p b j show ?thesis by simp
qed

text \<open>
  C5, amended. For a file map whose first \<^verbatim>\<open>.md\<close> key names a readable file that the
  parse step accepts, whose key \<^verbatim>\<open>conversation_log.json\<close> names a file that is not
  valid JSON, and whose citation index, when the map has the key
  \<^verbatim>\<open>url_to_info.json\<close>, is loaded without an exception, the function returns a record
  without \<^verbatim>\<open>conversation_log\<close> in which \<^verbatim>\<open>article\<close>, \<^verbatim>\<open>short_text\<close>,
  \<^verbatim>\<open>citation\<close> (null) and, when the map has \<^verbatim>\<open>url_to_info.json\<close>, \<^verbatim>\<open>citations\<close>
  are there.
\<close>

theorem broken_conversation_log_is_left_out:
  assumes "find (\<lambda>f. endswith f ''.md'') (map fst d) = Some k"
    and "map_of d k = Some p" and "fs w p = Text raw" and "parse w raw = Inr parsed"
    and "map_of d ''conversation_log.json'' = Some q" and "fs w q = Text j"
    and "json_loads w j = None"
    and "map_of d ''url_to_info.json'' = None
       \<or> (\<exists>u cs. map_of d ''url_to_info.json'' = Some u \<and> load_citations w u = Inr cs)"
  shows "\<exists>r. assemble_article_data w (ArgDict d) = Inr (Some r)
           \<and> conversation_log r = None
           \<and> article r = parsed
           \<and> short_text r = take 100 (remove_title_lines parsed)
           \<and> citation r = PNone
           \<and> (map_of d ''url_to_info.json'' = None \<longrightarrow> citations r = None)
           \<and> (\<forall>u. map_of d ''url_to_info.json'' = Some u \<longrightarrow>
                (\<exists>cs. load_citations w u = Inr cs \<and> citations r = Some cs))"
proof -
  from assms(8) obtain a where a: "add_citations w d (initial_article_data parsed) = Inr a"
    by (auto simp: add_citations_def)
  have l: "load_conversation_log w q = Inr None"
    by (rule load_conversation_log_broken [OF assms(6,7)])
  with assms(5) have c: "add_conversation_log w d a = Inr a"
    by (simp add: add_conversation_log_def)
  have r: "assemble_article_data w (ArgDict d) = Inr (Some a)"
    by (rule assemble_returns [OF assms(1-4) a c])
  note fields = assemble_record_fields [OF assms(1-4) r]
  have 1: "conversation_log a = None"
    using add_citations_fields(4) [OF a] by (simp add: initial_article_data_def)
  have 2: "short_text a = take 100 (remove_title_lines parsed)"
    using fields(2) by (simp only: re_sub_titles_spec)
  have 3: "map_of d ''url_to_info.json'' = None \<longrightarrow> citations a = None"
    using a by (auto simp: add_citations_none initial_article_data_def)
  have 4: "\<forall>u. map_of d ''url_to_info.json'' = Some u \<longrightarrow>
      (\<exists>cs. load_citations w u = Inr cs \<and> citations a = Some cs)"
    using add_citations_some [OF _ a] by blast
  from r 1 fields(1) 2 fields(3) 3 4 show ?thesis
    by (intro exI [of _ a] conjI)
qed

theorem broken_conversation_log_is_left_out_witness:
  "assemble_article_data example_world
       (ArgDict [(''storm_gen_article.md'', ''/t/storm_gen_article.md''),
                 (''conversation_log.json'', ''/t/broken.json'')])
     = Inr (Some \<lparr>article = example_article,
        short_text = ''Intro text.'' @ [newline] @ ''Body'',
        citation = PNone, citations = None, conversation_log = None\<rparr>)
   \<and> fs example_world ''/t/broken.json'' = Text ''{''
   \<and> json_loads example_world ''{'' = None"
proof -
  let ?d = "[(''storm_gen_article.md'', ''/t/storm_gen_article.md''),
             (''conversation_log.json'', ''/t/broken.json'')]"
  have f: "find (\<lambda>f. endswith f ''.md'') (map fst ?d) = Some ''storm_gen_article.md''"
    by (simp add: endswith_def)
  have mk: "map_of ?d ''storm_gen_article.md'' = Some ''/t/storm_gen_article.md''" by simp
  have tk: "fs example_world ''/t/storm_gen_article.md'' = Text example_article"
    by (simp add: example_world_def)
  have p: "parse example_world example_article = Inr example_article"
    by (simp add: example_world_def)
  have m: "map_of ?d ''conversation_log.json'' = Some ''/t/broken.json''" by simp
  have b: "fs example_world ''/t/broken.json'' = Text ''{''"
    by (simp add: example_world_def)
  have j: "json_loads example_world ''{'' = None"
    by (simp add: example_world_def example_url_info_text_def example_log_text_def)
  have u: "map_of ?d ''url_to_info.json'' = None
       \<or> (\<exists>u cs. map_of ?d ''url_to_info.json'' = Some u \<and> load_citations example_world u = Inr cs)"
    by simp
  have n: "map_of ?d ''url_to_info.json'' = None" by simp
  from broken_conversation_log_is_left_out [OF f mk tk p m b j u]
  obtain r where r: "assemble_article_data example_world (ArgDict ?d) = Inr (Some r)"
    and 1: "conversation_log r = None" and 2: "article r = example_article"
    and 3: "short_text r = take 100 (remove_title_lines example_article)"
    and 4: "citation r = PNone"
    and 5: "map_of ?d ''url_to_info.json'' = None \<longrightarrow> citations r = None"
    by (elim exE conjE)
  from 5 n have 6: "citations r = None" by (rule mp)
  have "take 100 (remove_title_lines example_article) = short_text (initial_article_data example_article)"
    by (simp add: re_sub_titles_spec [symmetric] initial_article_data_def)
  also have "\<dots> = ''Intro text.'' @ [newline] @ ''Body''"
    by (simp only: example_initial) simp
  finally have 7: "short_text r = ''Intro text.'' @ [newline] @ ''Body''"
    using 3 by simp
  from 1 2 4 6 7 have "r = \<lparr>article = example_article,
        short_text = ''Intro text.'' @ [newline] @ ''Body'',
        citation = PNone, citations = None, conversation_log = None\<rparr>"
    by (cases r) simp
  with r b j show ?thesis by simp
qed

text \<open>
  C9, as the claim states it, fails in its last part: the entries the helper builds have
  the keys \<^verbatim>\<open>url\<close>, \<^verbatim>\<open>title\<close> and \<^verbatim>\<open>snippets\<close> only, while the citations built
  from \<^verbatim>\<open>url_to_info.json\<close> have \<^verbatim>\<open>description\<close> as well, for the same urls and
  infos. Two more inputs show what the claim leaves open for an argument that is not
  null: two urls with one index leave one entry, that of the later url; and an argument
  without \<^verbatim>\<open>url_to_unified_index\<close> makes the helper raise \<^verbatim>\<open>KeyError\<close>.
\<close>

theorem search_citations_have_no_description_counterexample:
  "construct_citation_dict_from_search_result example_search_results
     = Inr (Some
         [(PInt 1, PDict [(''url'', PStr ''http://a''), (''title'', PStr ''A''),
                          (''snippets'', PList [PStr ''x''])]),
          (PInt 2, PDict [(''url'', PStr ''http://b''), (''title'', PStr ''B''),
                          (''snippets'', PList [PStr ''y''])])])
   \<and> citations_loop 1
       [(''http://a'', PDict [(''title'', PStr ''A''), (''snippet'', PStr ''x'')]),
        (''http://b'', PDict [(''title'', PStr ''B''), (''snippet'', PStr ''y''),
                              (''description'', PStr ''about b'')])] []
     = Inr [(1, PDict [(''url'', PStr ''http://a''), (''title'', PStr ''A''),
                       (''description'', PStr []), (''snippets'', PList [PStr ''x''])]),
            (2, PDict [(''url'', PStr ''http://b''), (''title'', PStr ''B''),
                       (''description'', PStr ''about b''), (''snippets'', PList [PStr ''y''])])]
   \<and> dict_keys (PDict [(''url'', PStr ''http://b''), (''title'', PStr ''B''),
                        (''snippets'', PList [PStr ''y''])])
     = [''url'', ''title'', ''snippets'']
   \<and> dict_keys (PDict [(''url'', PStr ''http://b''), (''title'', PStr ''B''),
                        (''description'', PStr ''about b''), (''snippets'', PList [PStr ''y''])])
     = [''url'', ''title'', ''description'', ''snippets'']
   \<and> dict_keys (PDict [(''url'', PStr ''http://b''), (''title'', PStr ''B''),
                        (''snippets'', PList [PStr ''y''])])
     \<noteq> dict_keys (PDict [(''url'', PStr ''http://b''), (''title'', PStr ''B''),
                        (''description'', PStr ''about b''), (''snippets'', PList [PStr ''y''])])
   \<and> construct_citation_dict_from_search_result
       (PDict [(''url_to_unified_index'', PDict [(''http://a'', PInt 1), (''http://b'', PInt 1)]),
               (''url_to_info'', PDict
                  [(''http://a'', PDict [(''title'', PStr ''A''), (''snippet'', PStr ''x'')]),
                   (''http://b'', PDict [(''title'', PStr ''B''), (''snippet'', PStr ''y'')])])])
     = Inr (Some [(PInt 1, PDict [(''url'', PStr ''http://b''), (''title'', PStr ''B''),
                                  (''snippets'', PList [PStr ''y''])])])
   \<and> construct_citation_dict_from_search_result (PDict []) = Inl KeyError"
  by (simp add: example_search_citations shared_index_search_citations
      empty_search_results_raise dict_get_def)

text \<open>
  C9, amended. The helper returns null for a null argument. It reads no file (it takes
  no world). For a search result whose \<^verbatim>\<open>url_to_unified_index\<close> is a mapping from
  urls to hashable indices and whose \<^verbatim>\<open>url_to_info\<close> has, for each of these urls, a
  record with a \<^verbatim>\<open>title\<close> and a \<^verbatim>\<open>snippet\<close>, it returns a mapping in which each
  pair \<open>(url, index)\<close> has at its index the entry
  \<open>{url, title, snippets: [snippet]}\<close> of that url (of the last url with that index
  when several urls share one), and every entry of the mapping is such an entry: its
  \<^verbatim>\<open>snippets\<close> is the one-element list of the snippet, and its keys are \<^verbatim>\<open>url\<close>,
  \<^verbatim>\<open>title\<close>, \<^verbatim>\<open>snippets\<close>, without the \<^verbatim>\<open>description\<close> of the file-based
  citations.
\<close>

theorem search_result_citations:
  "construct_citation_dict_from_search_result PNone = Inr None
   \<and> (\<forall>sr pairs infos.
        py_getitem sr ''url_to_unified_index'' = Inr (PDict pairs)
      \<and> py_getitem sr ''url_to_info'' = Inr (PDict infos)
      \<and> (\<forall>(url, index) \<in> set pairs. py_hashable index
            \<and> (\<exists>f t s. map_of infos url = Some (PDict f)
                  \<and> map_of f ''title'' = Some t \<and> map_of f ''snippet'' = Some s))
      \<longrightarrow> (\<exists>cd. construct_citation_dict_from_search_result sr = Inr (Some cd)
            \<and> (\<forall>xs url index ys f t s.
                  pairs = xs @ (url, index) # ys
                \<and> (\<forall>(u, i) \<in> set ys. \<not> py_key_eq i index)
                \<and> map_of infos url = Some (PDict f)
                \<and> map_of f ''title'' = Some t \<and> map_of f ''snippet'' = Some s
                \<longrightarrow> pydict_get cd index
                      = Some (PDict [(''url'', PStr url), (''title'', t), (''snippets'', PList [s])]))
            \<and> (\<forall>(k, c) \<in> set cd. \<exists>url index f t s.
                  (url, index) \<in> set pairs \<and> py_key_eq k index
                \<and> map_of infos url = Some (PDict f)
                \<and> map_of f ''title'' = Some t \<and> map_of f ''snippet'' = Some s
                \<and> c = PDict [(''url'', PStr url), (''title'', t), (''snippets'', PList [s])]
                \<and> dict_keys c = [''url'', ''title'', ''snippets''])))"
proof (intro conjI allI impI)
  show "construct_citation_dict_from_search_result PNone = Inr None"
    by (simp add: construct_citation_dict_from_search_result_def)
next
  fix sr pairs infos
  assume h: "py_getitem sr ''url_to_unified_index'' = Inr (PDict pairs)
      \<and> py_getitem sr ''url_to_info'' = Inr (PDict infos)
      \<and> (\<forall>(url, index) \<in> set pairs. py_hashable index
            \<and> (\<exists>f t s. map_of infos url = Some (PDict f)
                  \<and> map_of f ''title'' = Some t \<and> map_of f ''snippet'' = Some s))"
  then have u2i: "py_getitem sr ''url_to_unified_index'' = Inr (PDict pairs)"
    and inf: "py_getitem sr ''url_to_info'' = Inr (PDict infos)"
    and wf: "\<forall>(url, index) \<in> set pairs. py_hashable index
            \<and> (\<exists>f t s. map_of infos url = Some (PDict f)
                  \<and> map_of f ''title'' = Some t \<and> map_of f ''snippet'' = Some s)"
    by simp_all
  define e where "e url = (case search_citation sr url of Inr c \<Rightarrow> c | Inl x \<Rightarrow> PNone)" for url
  have e: "e url = PDict [(''url'', PStr url), (''title'', t), (''snippets'', PList [s])]"
    if "map_of infos url = Some (PDict f)" "map_of f ''title'' = Some t"
      "map_of f ''snippet'' = Some s" for url f t s
    unfolding e_def by (simp add: search_citation_wf [OF inf that])
  have H: "\<forall>(url, index) \<in> set pairs. py_hashable index \<and> search_citation sr url = Inr (e url)"
  proof (intro ballI, clarify)
    fix url index
    assume "(url, index) \<in> set pairs"
    with wf obtain f t s where "py_hashable index" and f: "map_of infos url = Some (PDict f)"
      "map_of f ''title'' = Some t" "map_of f ''snippet'' = Some s" by blast
    with search_citation_wf [OF inf f] e [OF f]
    show "py_hashable index \<and> search_citation sr url = Inr (e url)" by simp
  qed
  let ?cd = "foldl (\<lambda>cd (url, index). pydict_set cd index (e url)) [] pairs"
  from u2i have "sr \<noteq> PNone" by auto
  then have cd: "construct_citation_dict_from_search_result sr = Inr (Some ?cd)"
    by (simp add: construct_citation_dict_from_search_result_def u2i search_loop_foldl [OF H])
  have last: "pydict_get ?cd index
      = Some (PDict [(''url'', PStr url), (''title'', t), (''snippets'', PList [s])])"
    if "pairs = xs @ (url, index) # ys \<and> (\<forall>(u, i) \<in> set ys. \<not> py_key_eq i index)
        \<and> map_of infos url = Some (PDict f)
        \<and> map_of f ''title'' = Some t \<and> map_of f ''snippet'' = Some s"
    for xs url index ys f t s
  proof -
    from that have p: "pairs = xs @ (url, index) # ys"
      and ys: "\<forall>(u, i) \<in> set ys. \<not> py_key_eq i index"
      and f: "map_of infos url = Some (PDict f)" "map_of f ''title'' = Some t"
        "map_of f ''snippet'' = Some s" by simp_all
    from foldl_last_wins [OF ys, of e "[]" xs url] e [OF f] show ?thesis
      by (simp only: p)
  qed
  have entries: "\<exists>url index f t s.
                  (url, index) \<in> set pairs \<and> py_key_eq k index
                \<and> map_of infos url = Some (PDict f)
                \<and> map_of f ''title'' = Some t \<and> map_of f ''snippet'' = Some s
                \<and> c = PDict [(''url'', PStr url), (''title'', t), (''snippets'', PList [s])]
                \<and> dict_keys c = [''url'', ''title'', ''snippets'']"
    if "(k, c) \<in> set ?cd" for k c
  proof -
    from foldl_entries [OF that] obtain url index where m: "(url, index) \<in> set pairs"
      and k: "py_key_eq k index" and c: "c = e url" by auto
    from m wf obtain f t s where f: "map_of infos url = Some (PDict f)"
      "map_of f ''title'' = Some t" "map_of f ''snippet'' = Some s" by blast
    from c e [OF f] have "c = PDict [(''url'', PStr url), (''title'', t), (''snippets'', PList [s])]"
      by simp
    moreover from this have "dict_keys c = [''url'', ''title'', ''snippets'']" by simp
    ultimately show ?thesis using m k f by blast
  qed
  show "\<exists>cd. construct_citation_dict_from_search_result sr = Inr (Some cd)
            \<and> (\<forall>xs url index ys f t s.
                  pairs = xs @ (url, index) # ys
                \<and> (\<forall>(u, i) \<in> set ys. \<not> py_key_eq i index)
                \<and> map_of infos url = Some (PDict f)
                \<and> map_of f ''title'' = Some t \<and> map_of f ''snippet'' = Some s
                \<longrightarrow> pydict_get cd index
                      = Some (PDict [(''url'', PStr url), (''title'', t), (''snippets'', PList [s])]))
            \<and> (\<forall>(k, c) \<in> set cd. \<exists>url index f t s.
                  (url, index) \<in> set pairs \<and> py_key_eq k index
                \<and> map_of infos url = Some (PDict f)
                \<and> map_of f ''title'' = Some t \<and> map_of f ''snippet'' = Some s
                \<and> c = PDict [(''url'', PStr url), (''title'', t), (''snippets'', PList [s])]
                \<and> dict_keys c = [''url'', ''title'', ''snippets''])"
  proof (intro exI [of _ ?cd] conjI allI impI ballI)
    show "construct_citation_dict_from_search_result sr = Inr (Some ?cd)" by (rule cd)
  next
    fix xs url index ys f t s
    assume "pairs = xs @ (url, index) # ys \<and> (\<forall>(u, i) \<in> set ys. \<not> py_key_eq i index)
        \<and> map_of infos url = Some (PDict f)
        \<and> map_of f ''title'' = Some t \<and> map_of f ''snippet'' = Some s"
    then show "pydict_get ?cd index
        = Some (PDict [(''url'', PStr url), (''title'', t), (''snippets'', PList [s])])"
      by (rule last)
  next
    fix x
    assume x: "x \<in> set ?cd"
    obtain k c where kc: "x = (k, c)" by (cases x)
    from entries [of k c] x kc
    show "case x of (k, c) \<Rightarrow> \<exists>url index f t s.
                  (url, index) \<in> set pairs \<and> py_key_eq k index
                \<and> map_of infos url = Some (PDict f)
                \<and> map_of f ''title'' = Some t \<and> map_of f ''snippet'' = Some s
                \<and> c = PDict [(''url'', PStr url), (''title'', t), (''snippets'', PList [s])]
                \<and> dict_keys c = [''url'', ''title'', ''snippets'']"
      by simp
  qed
qed

theorem search_result_citations_witness:
  "construct_citation_dict_from_search_result PNone = Inr None
   \<and> construct_citation_dict_from_search_result example_search_results
     = Inr (Some
         [(PInt 1, PDict [(''url'', PStr ''http://a''), (''title'', PStr ''A''),
                          (''snippets'', PList [PStr ''x''])]),
          (PInt 2, PDict [(''url'', PStr ''http://b''), (''title'', PStr ''B''),
                          (''snippets'', PList [PStr ''y''])])])
   \<and> pydict_get
         [(PInt 1, PDict [(''url'', PStr ''http://a''), (''title'', PStr ''A''),
                          (''snippets'', PList [PStr ''x''])]),
          (PInt 2, PDict [(''url'', PStr ''http://b''), (''title'', PStr ''B''),
                          (''snippets'', PList [PStr ''y''])])] (PInt 2)
     = Some (PDict [(''url'', PStr ''http://b''), (''title'', PStr ''B''),
                    (''snippets'', PList [PStr ''y''])])"
proof -
  let ?fa = "[(''title'', PStr ''A''), (''snippet'', PStr ''x'')]"
  let ?fb = "[(''title'', PStr ''B''), (''snippet'', PStr ''y''), (''description'', PStr ''about b'')]"
  let ?pairs = "[(''http://a'', PInt 1), (''http://b'', PInt 2)]"
  let ?infos = "[(''http://a'', PDict ?fa), (''http://b'', PDict ?fb)]"
  have h: "py_getitem example_search_results ''url_to_unified_index'' = Inr (PDict ?pairs)
      \<and> py_getitem example_search_results ''url_to_info'' = Inr (PDict ?infos)
      \<and> (\<forall>(url, index) \<in> set ?pairs. py_hashable index
            \<and> (\<exists>f t s. map_of ?infos url = Some (PDict f)
                  \<and> map_of f ''title'' = Some t \<and> map_of f ''snippet'' = Some s))"
    by (simp add: example_search_results_def)
  have none: "construct_citation_dict_from_search_result PNone = Inr None"
    by (rule search_result_citations [THEN conjunct1])
  from search_result_citations [THEN conjunct2, rule_format, OF h]
  obtain cd where cd: "construct_citation_dict_from_search_result example_search_results
      = Inr (Some cd)"
    and last: "\<forall>xs url index ys f t s.
                  ?pairs = xs @ (url, index) # ys
                \<and> (\<forall>(u, i) \<in> set ys. \<not> py_key_eq i index)
                \<and> map_of ?infos url = Some (PDict f)
                \<and> map_of f ''title'' = Some t \<and> map_of f ''snippet'' = Some s
                \<longrightarrow> pydict_get cd index
                      = Some (PDict [(''url'', PStr url), (''title'', t), (''snippets'', PList [s])])"
    by (elim exE conjE)
  from cd have v: "cd = [(PInt 1, PDict [(''url'', PStr ''http://a''), (''title'', PStr ''A''),
                          (''snippets'', PList [PStr ''x''])]),
          (PInt 2, PDict [(''url'', PStr ''http://b''), (''title'', PStr ''B''),
                          (''snippets'', PList [PStr ''y''])])]"
    by (simp only: example_search_citations sum.inject option.inject)
  from last [rule_format, of "[(''http://a'', PInt 1)]" "''http://b''" "PInt 2" "[]" ?fb
      "PStr ''B''" "PStr ''y''"]
  have "pydict_get cd (PInt 2)
     = Some (PDict [(''url'', PStr ''http://b''), (''title'', PStr ''B''),
                    (''snippets'', PList [PStr ''y''])])"
    by simp
  with none cd v show ?thesis by simp
qed

end
